theory Spec2Isabelle
  imports Main "HOL-Library.Word"
begin

section \<open>Data model\<close>

text \<open>
  The catalog of dairycart: a product root owns options, an option owns values, and every
  combination of one value per option is a product (a variant) with its own SKU.
  Identifiers are Go \<open>uint64\<close>, timestamps are abstract instants. The pricing and
  dimension fields of a product are floating-point numbers that the handlers copy and
  never inspect; they are left out of the records.
\<close>

type_synonym uint64 = "64 word"
type_synonym uint32 = "32 word"
type_synonym time = nat

record ProductOptionValue =
  ov_ID :: uint64
  ov_ProductOptionID :: uint64
  ov_Value :: string
  ov_CreatedOn :: time
  ov_ArchivedOn :: "time option"

record ProductOption =
  po_ID :: uint64
  po_Name :: string
  po_ProductRootID :: uint64
  po_Values :: "ProductOptionValue list"
  po_CreatedOn :: time
  po_ArchivedOn :: "time option"

text \<open>
  A product (one variant), a product root and a row of the table
  \<open>product_variant_bridge\<close>. The structs live in the models package; the fields kept
  are those the handlers read or write.
\<close>

record Product =
  p_ID :: uint64
  p_ProductRootID :: uint64
  p_Name :: string
  p_SKU :: string
  p_UPC :: string
  p_OptionSummary :: string
  p_Quantity :: uint32
  p_QuantityPerPackage :: uint32
  p_ApplicableOptionValues :: "ProductOptionValue list"
  p_AvailableOn :: time
  p_CreatedOn :: time
  p_ArchivedOn :: "time option"

record ProductRoot =
  r_ID :: uint64
  r_Name :: string
  r_SKUPrefix :: string
  r_QuantityPerPackage :: uint32
  r_Options :: "ProductOption list"
  r_Products :: "Product list"
  r_CreatedOn :: time
  r_ArchivedOn :: "time option"

record ProductVariantBridge =
  b_ID :: uint64
  b_ProductID :: uint64
  b_ProductOptionValueID :: uint64
  b_CreatedOn :: time
  b_ArchivedOn :: "time option"

text \<open>
  \<open>ProductOptionCreationInput\<close> of \<open>api/product_options.go\<close> and the body of a
  product creation request.
\<close>

record ProductOptionCreationInput =
  in_Name :: string
  in_Values :: "string list"

record ProductCreationInput =
  pci_Name :: string
  pci_SKU :: string
  pci_UPC :: string
  pci_Quantity :: uint32
  pci_QuantityPerPackage :: uint32
  pci_AvailableOn :: "time option"
  pci_Options :: "ProductOptionCreationInput list"

section \<open>The combination enumerator\<close>

text \<open>
  \<open>generateCartesianProductForOptions\<close> of \<open>api/product_options.go\<close>. A Go index
  expression outside the bounds of its slice panics; the model returns the panic as a
  value.
\<close>

datatype panic = IndexOutOfRange

record simpleProductOption =
  IDs :: "uint64 list"
  OptionSummary :: string
  SKUPostfix :: string
  OriginalValues :: "ProductOptionValue list"

record optionPlaceholder =
  ph_ID :: uint64
  ph_Summary :: string
  ph_Value :: string
  ph_OriginalValue :: ProductOptionValue

text \<open>\<open>strings.Join\<close>: the elements, with the separator between neighbours.\<close>

fun strings_Join :: "string list \<Rightarrow> string \<Rightarrow> string" where
  "strings_Join [] sep = []"
| "strings_Join [x] sep = x"
| "strings_Join (x # y # ys) sep = x @ sep @ strings_Join (y # ys) sep"

text \<open>
  The closure \<open>next\<close>: \<open>for j := len(ix) - 1; j >= 0; j--\<close> increments position
  \<open>j\<close> and returns when \<open>j == 0\<close> or the position is still inside its slice;
  otherwise the position is reset and the loop moves one position to the left.
\<close>

fun next_from :: "nat \<Rightarrow> nat list \<Rightarrow> 'a list list \<Rightarrow> nat list" where
  "next_from 0 ix sl = ix[0 := ix ! 0 + 1]"
| "next_from (Suc j) ix sl =
     (let ix1 = ix[Suc j := ix ! Suc j + 1] in
      if ix1 ! Suc j < length (sl ! Suc j) then ix1
      else next_from j (ix1[Suc j := 0]) sl)"

definition nextIndex :: "nat list \<Rightarrow> 'a list list \<Rightarrow> nat list" where
  "nextIndex ix sl = (if ix = [] then ix else next_from (length ix - 1) ix sl)"

text \<open>
  The first loops of the function: one placeholder per value of every option, in input
  order. \<open>strings.ToLower\<close> belongs to the Go library; it is the parameter \<open>lower\<close>
  of the functions that need it.
\<close>

definition placeholder :: "ProductOption \<Rightarrow> ProductOptionValue \<Rightarrow> optionPlaceholder" where
  "placeholder opt v =
     \<lparr>ph_ID = ov_ID v, ph_Summary = po_Name opt @ '': '' @ ov_Value v,
      ph_Value = ov_Value v, ph_OriginalValue = v\<rparr>"

definition optionData_of :: "ProductOption list \<Rightarrow> optionPlaceholder list list" where
  "optionData_of inputOptions = map (\<lambda>opt. map (placeholder opt) (po_Values opt)) inputOptions"

text \<open>
  The inner loop \<open>for j, k := range ix\<close>: it reads \<open>optionData[j][k]\<close> and appends
  to the four slices. The accumulator holds the slices built so far.
\<close>

record parts =
  ids :: "uint64 list"
  skuPrefixParts :: "string list"
  optionSummaryParts :: "string list"
  originalValues :: "ProductOptionValue list"

fun collect :: "(string \<Rightarrow> string) \<Rightarrow> nat \<Rightarrow> nat list \<Rightarrow> optionPlaceholder list list \<Rightarrow> parts
    \<Rightarrow> panic + parts" where
  "collect lower j [] optionData acc = Inr acc"
| "collect lower j (k # ks) optionData acc =
     (if j < length optionData \<and> k < length (optionData ! j) then
        let ph = optionData ! j ! k in
        collect lower (Suc j) ks optionData
          \<lparr>ids = ids acc @ [ph_ID ph],
           skuPrefixParts = skuPrefixParts acc @ [lower (ph_Value ph)],
           optionSummaryParts = optionSummaryParts acc @ [ph_Summary ph],
           originalValues = originalValues acc @ [ph_OriginalValue ph]\<rparr>
      else Inl IndexOutOfRange)"

definition combination :: "(string \<Rightarrow> string) \<Rightarrow> nat list \<Rightarrow> optionPlaceholder list list
    \<Rightarrow> panic + simpleProductOption" where
  "combination lower ix optionData =
     (case collect lower 0 ix optionData
             \<lparr>ids = [], skuPrefixParts = [], optionSummaryParts = [], originalValues = []\<rparr> of
        Inl p \<Rightarrow> Inl p
      | Inr acc \<Rightarrow>
          Inr \<lparr>IDs = ids acc,
               OptionSummary = strings_Join (optionSummaryParts acc) '', '',
               SKUPostfix = strings_Join (skuPrefixParts acc) ''_'',
               OriginalValues = originalValues acc\<rparr>)"

subsection \<open>The index vector as a mixed-radix number\<close>

text \<open>
  The loop of the enumerator stops because each call of \<open>next\<close> adds one to the number
  that the index vector denotes in the mixed radix given by the lengths of the slices.
\<close>

fun rank :: "nat list \<Rightarrow> nat list \<Rightarrow> nat" where
  "rank [] ix = 0"
| "rank (n # ns) [] = 0"
| "rank (n # ns) (d # ds) = d * prod_list ns + rank ns ds"

lemma prod_list_drop_Suc:
  "j < length ns \<Longrightarrow> prod_list (drop j ns) = ns ! j * prod_list (drop (Suc j) ns)"
  by (simp flip: Cons_nth_drop_Suc)

lemma rank_update:
  "length ix = length ns \<Longrightarrow> j < length ns \<Longrightarrow>
   rank ns (ix[j := v]) + ix ! j * prod_list (drop (Suc j) ns)
     = rank ns ix + v * prod_list (drop (Suc j) ns)"
proof (induction ns arbitrary: ix j)
  case Nil
  then show ?case by simp
next
  case (Cons n ns)
  then obtain d ds where ix: "ix = d # ds" by (cases ix) auto
  show ?case
  proof (cases j)
    case 0
    then show ?thesis using ix by simp
  next
    case (Suc j')
    then show ?thesis using ix Cons.prems Cons.IH [of ds j'] by simp
  qed
qed

lemma length_next_from [simp]: "length (next_from j ix sl) = length ix"
  by (induction j arbitrary: ix) (auto simp: Let_def)

lemma length_nextIndex [simp]: "length (nextIndex ix sl) = length ix"
  by (simp add: nextIndex_def)

lemma next_from_rank:
  "length ix = length sl \<Longrightarrow> j < length sl \<Longrightarrow> \<forall>i\<le>j. ix ! i < length (sl ! i) \<Longrightarrow>
   rank (map length sl) (next_from j ix sl)
     = rank (map length sl) ix + prod_list (drop (Suc j) (map length sl))"
proof (induction j arbitrary: ix)
  case 0
  then show ?case using rank_update [of ix "map length sl" 0 "ix ! 0 + 1"] by simp
next
  case (Suc j)
  let ?ns = "map length sl"
  let ?w = "prod_list (drop (Suc (Suc j)) ?ns)"
  show ?case
  proof (cases "ix ! Suc j + 1 < length (sl ! Suc j)")
    case True
    then show ?thesis
      using Suc.prems rank_update [of ix ?ns "Suc j" "ix ! Suc j + 1"] by (simp add: Let_def)
  next
    case False
    with Suc.prems have full: "ix ! Suc j + 1 = length (sl ! Suc j)"
      by (metis Suc_eq_plus1 Suc_lessI le_refl)
    let ?ix2 = "ix[Suc j := 0]"
    have step: "next_from (Suc j) ix sl = next_from j ?ix2 sl"
      using False Suc.prems by (simp add: Let_def)
    have r2: "rank ?ns ?ix2 + ix ! Suc j * ?w = rank ?ns ix"
      using Suc.prems rank_update [of ix ?ns "Suc j" 0] by simp
    have "rank ?ns (next_from j ?ix2 sl) = rank ?ns ?ix2 + prod_list (drop (Suc j) ?ns)"
      using Suc.prems by (intro Suc.IH) auto
    also have "prod_list (drop (Suc j) ?ns) = length (sl ! Suc j) * ?w"
      using Suc.prems prod_list_drop_Suc [of "Suc j" ?ns] by simp
    finally have "rank ?ns (next_from j ?ix2 sl) = rank ?ns ?ix2 + (ix ! Suc j + 1) * ?w"
      by (simp only: full)
    then have "rank ?ns (next_from j ?ix2 sl) = rank ?ns ix + ?w"
      using r2 by (simp add: algebra_simps)
    then show ?thesis by (simp only: step)
  qed
qed

lemma next_from_inrange:
  "j < length ix \<Longrightarrow> \<forall>i. 0 < i \<and> i < length ix \<longrightarrow> ix ! i < length (sl ! i) \<Longrightarrow>
   0 < i \<Longrightarrow> i < length ix \<Longrightarrow> next_from j ix sl ! i < length (sl ! i)"
proof (induction j arbitrary: ix)
  case 0
  then show ?case by simp
next
  case (Suc j)
  show ?case
  proof (cases "ix ! Suc j + 1 < length (sl ! Suc j)")
    case True
    then show ?thesis using Suc.prems by (auto simp add: Let_def nth_list_update)
  next
    case False
    have "next_from j (ix[Suc j := 0]) sl ! i < length (sl ! i)"
      using Suc.prems by (intro Suc.IH) (auto simp: nth_list_update)
    then show ?thesis using False Suc.prems by (simp add: Let_def)
  qed
qed

lemma rank_less:
  "length ix = length ns \<Longrightarrow> \<forall>i<length ns. ix ! i < ns ! i \<Longrightarrow> rank ns ix < prod_list ns"
proof (induction ns arbitrary: ix)
  case Nil
  then show ?case by simp
next
  case (Cons n ns)
  then obtain d ds where ix: "ix = d # ds" by (cases ix) auto
  have d: "d < n" using Cons.prems(2) ix by auto
  have "rank ns ds < prod_list ns"
    using Cons.prems ix by (intro Cons.IH) auto
  then have "d * prod_list ns + rank ns ds < (d + 1) * prod_list ns" by simp
  also have "\<dots> \<le> n * prod_list ns" using d by (intro mult_le_mono1) simp
  finally show ?case using ix by simp
qed

text \<open>
  The body of the loop succeeds exactly when every index is inside its slice, and then
  it combines the placeholders that the indices select.
\<close>

fun inrange :: "nat \<Rightarrow> nat list \<Rightarrow> 'a list list \<Rightarrow> bool" where
  "inrange j [] sl = True"
| "inrange j (k # ks) sl = (j < length sl \<and> k < length (sl ! j) \<and> inrange (Suc j) ks sl)"

fun picked :: "nat \<Rightarrow> nat list \<Rightarrow> 'a list list \<Rightarrow> 'a list" where
  "picked j [] sl = []"
| "picked j (k # ks) sl = sl ! j ! k # picked (Suc j) ks sl"

definition combine :: "(string \<Rightarrow> string) \<Rightarrow> optionPlaceholder list \<Rightarrow> simpleProductOption" where
  "combine lower phs =
     \<lparr>IDs = map ph_ID phs,
      OptionSummary = strings_Join (map ph_Summary phs) '', '',
      SKUPostfix = strings_Join (map (\<lambda>ph. lower (ph_Value ph)) phs) ''_'',
      OriginalValues = map ph_OriginalValue phs\<rparr>"

lemma collect_eq:
  "collect lower j ks sl acc =
     (if inrange j ks sl then
        Inr \<lparr>ids = ids acc @ map ph_ID (picked j ks sl),
             skuPrefixParts = skuPrefixParts acc @ map (\<lambda>ph. lower (ph_Value ph)) (picked j ks sl),
             optionSummaryParts = optionSummaryParts acc @ map ph_Summary (picked j ks sl),
             originalValues = originalValues acc @ map ph_OriginalValue (picked j ks sl)\<rparr>
      else Inl IndexOutOfRange)"
  by (induction ks arbitrary: j acc) (simp_all add: Let_def)

lemma combination_eq:
  "combination lower ix sl =
     (if inrange 0 ix sl then Inr (combine lower (picked 0 ix sl)) else Inl IndexOutOfRange)"
  by (simp add: combination_def collect_eq combine_def)

lemma inrange_iff:
  "inrange j ks sl \<longleftrightarrow> (\<forall>i<length ks. j + i < length sl \<and> ks ! i < length (sl ! (j + i)))"
proof (induction ks arbitrary: j)
  case Nil
  then show ?case by simp
next
  case (Cons k ks)
  show ?case
    by (simp add: Cons.IH All_less_Suc2)
qed


lemma next_from_take:
  "j < n \<Longrightarrow> next_from j ix (take n sl) = next_from j ix sl"
  by (induction j arbitrary: ix) (simp_all add: Let_def)

lemma inrange_take:
  "inrange 0 ix sl \<Longrightarrow> length ix \<le> length sl"
  using inrange_iff [of 0 ix sl] by (metis add_0 leI less_irrefl_nat linorder_le_less_linear order_less_trans)

lemma nextIndex_rank:
  assumes "ix \<noteq> []" and "inrange 0 ix sl"
  shows "rank (map length (take (length ix) sl)) (nextIndex ix sl)
           = rank (map length (take (length ix) sl)) ix + 1"
    and "rank (map length (take (length ix) sl)) ix < prod_list (map length (take (length ix) sl))"
proof -
  let ?sl = "take (length ix) sl"
  have le: "length ix \<le> length sl" using assms(2) by (rule inrange_take)
  then have len: "length ix = length ?sl" by simp
  have rng: "\<forall>i<length ix. ix ! i < length (?sl ! i)"
    using assms(2) by (simp add: inrange_iff)
  have "nextIndex ix sl = next_from (length ix - 1) ix ?sl"
    using assms(1) by (simp add: nextIndex_def next_from_take)
  moreover have "rank (map length ?sl) (next_from (length ix - 1) ix ?sl)
      = rank (map length ?sl) ix + prod_list (drop (Suc (length ix - 1)) (map length ?sl))"
  proof (rule next_from_rank)
    show "length ix = length ?sl" by (rule len)
    show "length ix - 1 < length ?sl" using assms(1) len by simp
    show "\<forall>i\<le>length ix - 1. ix ! i < length (?sl ! i)"
      using assms(1) rng by (metis One_nat_def Suc_pred le_imp_less_Suc length_greater_0_conv)
  qed
  ultimately show "rank (map length ?sl) (nextIndex ix sl) = rank (map length ?sl) ix + 1"
    using assms(1) le by simp
  show "rank (map length ?sl) ix < prod_list (map length ?sl)"
    using len rng by (intro rank_less) auto
qed

text \<open>
  The main loop: \<open>for ix := make([]int, len(optionData)); ix[0] < len(optionData[0]);
  next(ix, optionData)\<close>. Reading \<open>ix[0]\<close> or \<open>optionData[0]\<close> of an empty
  slice panics, and so does the body when an index leaves its slice.
\<close>

function combinations_loop :: "(string \<Rightarrow> string) \<Rightarrow> nat list \<Rightarrow> optionPlaceholder list list
    \<Rightarrow> simpleProductOption list \<Rightarrow> panic + simpleProductOption list" where
  "combinations_loop lower ix optionData output =
     (if ix = [] \<or> optionData = [] then Inl IndexOutOfRange
      else if ix ! 0 < length (optionData ! 0) then
        (case combination lower ix optionData of
           Inl p \<Rightarrow> Inl p
         | Inr c \<Rightarrow>
             combinations_loop lower (nextIndex ix optionData) optionData (output @ [c]))
      else Inr output)"
  by pat_completeness auto

termination
proof (relation "measure (\<lambda>(lower, ix, sl, out).
    prod_list (map length (take (length ix) sl)) - rank (map length (take (length ix) sl)) ix)")
  show "wf (measure (\<lambda>(lower, ix, sl, out).
    prod_list (map length (take (length ix) sl)) - rank (map length (take (length ix) sl)) ix))"
    by simp
next
  fix lower :: "string \<Rightarrow> string" and ix :: "nat list" and optionData :: "optionPlaceholder list list"
    and out :: "simpleProductOption list" and c
  assume ne: "\<not> (ix = [] \<or> optionData = [])"
    and c: "combination lower ix optionData = Inr c"
  have rng: "inrange 0 ix optionData"
    using c by (simp add: combination_eq split: if_splits)
  from ne have "ix \<noteq> []" by simp
  from nextIndex_rank [OF this rng]
  show "((lower, nextIndex ix optionData, optionData, out @ [c]), lower, ix, optionData, out)
      \<in> measure (\<lambda>(lower, ix, sl, out).
          prod_list (map length (take (length ix) sl)) - rank (map length (take (length ix) sl)) ix)"
    by simp
qed

declare combinations_loop.simps [simp del]

text \<open>The function itself: build the placeholders, start from the zero vector.\<close>

definition generateCartesianProductForOptions :: "(string \<Rightarrow> string) \<Rightarrow> ProductOption list
    \<Rightarrow> panic + simpleProductOption list" where
  "generateCartesianProductForOptions lower inputOptions =
     (let optionData = optionData_of inputOptions in
      combinations_loop lower (replicate (length optionData) 0) optionData [])"

section \<open>The catalog store\<close>

text \<open>
  The handlers reach the database through \<open>storage.Storer\<close>, whose methods take a
  \<open>storage.Querier\<close>: the connection pool \<open>db\<close> or an open transaction \<open>tx\<close>.
  The database of the model holds the committed tables, the tables as the open
  transaction sees them, and the history of every call with the error it returned.
  Whether a call fails, the identifier a sequence generates and the value of \<open>NOW()\<close>
  are given by the environment, as functions of the position of the call in the history;
  so are the two library functions \<open>strings.ToLower\<close> and the SKU check
  \<open>restrictedStringIsValid\<close>, whose code is outside the sources. The errors are
  \<open>sql.ErrNoRows\<close>, a uniqueness violation, a lost connection, and the error of
  PostgreSQL for a statement that it does not accept.
\<close>

datatype store_error = ErrNoRows | UniqueViolation | ConnectionLost | StatementRejected

datatype querier = DB | TX

datatype call =
    Call_ProductRootWithSKUPrefixExists string
  | Call_Begin
  | Call_CreateProductRoot ProductRoot
  | Call_CreateProductOption ProductOption
  | Call_CreateProductOptionValue ProductOptionValue
  | Call_CreateProduct Product
  | Call_CreateMultipleProductVariantBridgesForProductID uint64 "uint64 list"
  | Call_Commit
  | Call_Rollback
  | Call_GetWebhooksByEventType string
  | Call_GetProductBySKU string
  | Call_DeleteProductVariantBridge uint64
  | Call_DeleteProductVariantBridgeByProductID uint64
  | Call_DeleteProduct uint64

record tables =
  product_roots :: "ProductRoot list"
  product_options :: "ProductOption list"
  product_option_values :: "ProductOptionValue list"
  products :: "Product list"
  product_variant_bridge :: "ProductVariantBridge list"

record database =
  committed :: tables
  pending :: "tables option"
  history :: "(call \<times> store_error option) list"

record environment =
  ToLower :: "string \<Rightarrow> string"
  restrictedStringIsValid :: "string \<Rightarrow> bool"
  fails :: "nat \<Rightarrow> store_error option"
  generated_id :: "nat \<Rightarrow> uint64"
  clock :: "nat \<Rightarrow> time"

definition record_call :: "call \<Rightarrow> store_error option \<Rightarrow> database \<Rightarrow> database" where
  "record_call c e db = db\<lparr>history := history db @ [(c, e)]\<rparr>"

definition read_tables :: "querier \<Rightarrow> database \<Rightarrow> tables" where
  "read_tables q db =
     (case q of
        DB \<Rightarrow> committed db
      | TX \<Rightarrow> (case pending db of Some t \<Rightarrow> t | None \<Rightarrow> committed db))"

definition write_tables :: "querier \<Rightarrow> (tables \<Rightarrow> tables) \<Rightarrow> database \<Rightarrow> database" where
  "write_tables q f db =
     (case q of
        DB \<Rightarrow> db\<lparr>committed := f (committed db)\<rparr>
      | TX \<Rightarrow> db\<lparr>pending := map_option f (pending db)\<rparr>)"

text \<open>
  \<open>db.Begin\<close>, \<open>tx.Commit\<close> and \<open>tx.Rollback\<close> of \<open>database/sql\<close>. A
  transaction starts from the committed tables; committing installs its tables, and a
  failed commit or a rollback discards them. The handlers ignore the result of
  \<open>Rollback\<close>.
\<close>

definition Begin :: "environment \<Rightarrow> database \<Rightarrow> store_error option \<times> database" where
  "Begin env db =
     (case fails env (length (history db)) of
        Some e \<Rightarrow> (Some e, record_call Call_Begin (Some e) db)
      | None \<Rightarrow> (None, record_call Call_Begin None (db\<lparr>pending := Some (committed db)\<rparr>)))"

definition Commit :: "environment \<Rightarrow> database \<Rightarrow> store_error option \<times> database" where
  "Commit env db =
     (case fails env (length (history db)) of
        Some e \<Rightarrow> (Some e, record_call Call_Commit (Some e) (db\<lparr>pending := None\<rparr>))
      | None \<Rightarrow>
          (None, record_call Call_Commit None
             (db\<lparr>committed := (case pending db of Some t \<Rightarrow> t | None \<Rightarrow> committed db),
                 pending := None\<rparr>)))"

definition Rollback :: "environment \<Rightarrow> database \<Rightarrow> database" where
  "Rollback env db =
     record_call Call_Rollback (fails env (length (history db))) (db\<lparr>pending := None\<rparr>)"

text \<open>
  Modelled from the spec: the methods \<open>CreateProductRoot\<close>, \<open>CreateProductOption\<close>,
  \<open>CreateProductOptionValue\<close> and \<open>CreateProduct\<close> of the store are declared in
  \<open>api/storage/storage.go\<close> but their code is not among the sources. Following section
  4.3 of the specification, a create inserts one row and returns the generated identifier
  and the creation timestamp (\<open>CreateProduct\<close> returns the availability time as well);
  a failed create inserts nothing.
\<close>

definition insert_row :: "environment \<Rightarrow> call \<Rightarrow> (uint64 \<Rightarrow> time \<Rightarrow> tables \<Rightarrow> tables) \<Rightarrow> querier
    \<Rightarrow> database \<Rightarrow> (store_error + uint64 \<times> time) \<times> database" where
  "insert_row env c ins q db =
     (let k = length (history db) in
      case fails env k of
        Some e \<Rightarrow> (Inl e, record_call c (Some e) db)
      | None \<Rightarrow>
          (Inr (generated_id env k, clock env k),
           record_call c None (write_tables q (ins (generated_id env k) (clock env k)) db)))"

definition CreateProductRoot :: "environment \<Rightarrow> querier \<Rightarrow> ProductRoot \<Rightarrow> database
    \<Rightarrow> (store_error + uint64 \<times> time) \<times> database" where
  "CreateProductRoot env q r =
     insert_row env (Call_CreateProductRoot r)
       (\<lambda>i t tb. tb\<lparr>product_roots := product_roots tb @ [r\<lparr>r_ID := i, r_CreatedOn := t\<rparr>]\<rparr>) q"

definition CreateProductOption :: "environment \<Rightarrow> querier \<Rightarrow> ProductOption \<Rightarrow> database
    \<Rightarrow> (store_error + uint64 \<times> time) \<times> database" where
  "CreateProductOption env q opt =
     insert_row env (Call_CreateProductOption opt)
       (\<lambda>i t tb. tb\<lparr>product_options :=
                      product_options tb @ [opt\<lparr>po_ID := i, po_CreatedOn := t\<rparr>]\<rparr>) q"

definition CreateProductOptionValue :: "environment \<Rightarrow> querier \<Rightarrow> ProductOptionValue \<Rightarrow> database
    \<Rightarrow> (store_error + uint64 \<times> time) \<times> database" where
  "CreateProductOptionValue env q v =
     insert_row env (Call_CreateProductOptionValue v)
       (\<lambda>i t tb. tb\<lparr>product_option_values :=
                      product_option_values tb @ [v\<lparr>ov_ID := i, ov_CreatedOn := t\<rparr>]\<rparr>) q"

definition CreateProduct :: "environment \<Rightarrow> querier \<Rightarrow> Product \<Rightarrow> database
    \<Rightarrow> (store_error + uint64 \<times> time \<times> time) \<times> database" where
  "CreateProduct env q p db =
     (case insert_row env (Call_CreateProduct p)
             (\<lambda>i t tb. tb\<lparr>products := products tb @ [p\<lparr>p_ID := i, p_CreatedOn := t\<rparr>]\<rparr>) q db of
        (Inl e, db') \<Rightarrow> (Inl e, db')
      | (Inr (i, t), db') \<Rightarrow> (Inr (i, t, p_AvailableOn p), db'))"

text \<open>
  \<open>buildMultiProductVariantBridgeCreationQuery\<close> of
  \<open>api/storage/postgres/product_variant_bridge.go\<close>. For two option value identifiers
  the function builds the text

  \<^verbatim>\<open>INSERT INTO product_variant_bridge ( product_id, product_option_value_id )\<close>
  \<^verbatim>\<open>VALUES ( ($1, $2), ($1, $3) ) RETURNING id, created_on;\<close>

  The loop writes one pair \<open>($1, $ix+2)\<close> for the identifier at index \<open>ix\<close>, the pairs
  separated by commas, and the template puts the pairs between the parentheses that
  follow \<open>VALUES\<close>. The model keeps the text after \<open>VALUES\<close> as its syntax tree: the
  parenthesised lists, each a list of expressions. The text of the source has one such
  list, and its expressions are the pairs, which are row constructors. The arguments are
  the product identifier followed by the option value identifiers.
\<close>

datatype expression = Placeholder nat | RowConstructor "nat list"

definition buildMultiProductVariantBridgeCreationQuery :: "uint64 \<Rightarrow> uint64 list
    \<Rightarrow> expression list list \<times> uint64 list" where
  "buildMultiProductVariantBridgeCreationQuery productID optionValueIDs =
     ([map (\<lambda>ix. RowConstructor [1, ix + 2]) [0..<length optionValueIDs]],
      productID # optionValueIDs)"

text \<open>
  What PostgreSQL does with the statement: every parenthesised list after
  \<open>VALUES\<close> is one row for the two target columns \<open>product_id\<close> and
  \<open>product_option_value_id\<close>, both \<open>bigint NOT NULL\<close>. A row is stored when it has
  two expressions and both are placeholders bound to an argument. A list with another
  number of expressions, or with a row constructor where a \<open>bigint\<close> is expected, makes
  PostgreSQL reject the whole statement, and no row is stored.
\<close>

fun bridge_row :: "uint64 list \<Rightarrow> expression list \<Rightarrow> (uint64 \<times> uint64) option" where
  "bridge_row args [Placeholder a, Placeholder b] =
     (if 0 < a \<and> a \<le> length args \<and> 0 < b \<and> b \<le> length args
      then Some (args ! (a - 1), args ! (b - 1)) else None)"
| "bridge_row args row = None"

definition bridge_rows :: "uint64 \<Rightarrow> time \<Rightarrow> (uint64 \<times> uint64) list \<Rightarrow> ProductVariantBridge list" where
  "bridge_rows first_id now pairs =
     map (\<lambda>(n, (a, b)).
            \<lparr>b_ID = first_id + of_nat n, b_ProductID = a, b_ProductOptionValueID = b,
             b_CreatedOn = now, b_ArchivedOn = None\<rparr>)
         (enumerate 0 pairs)"

text \<open>
  \<open>CreateMultipleProductVariantBridgesForProductID\<close> of the same file: it builds the
  statement and executes it, and returns the error of \<open>db.Exec\<close>.
\<close>

definition CreateMultipleProductVariantBridgesForProductID :: "environment \<Rightarrow> querier \<Rightarrow> uint64
    \<Rightarrow> uint64 list \<Rightarrow> database \<Rightarrow> store_error option \<times> database" where
  "CreateMultipleProductVariantBridgesForProductID env q productID optionValueIDs db =
     (case buildMultiProductVariantBridgeCreationQuery productID optionValueIDs of
        (query, args) \<Rightarrow>
          (let k = length (history db);
               c = Call_CreateMultipleProductVariantBridgesForProductID productID optionValueIDs in
           case fails env k of
             Some e \<Rightarrow> (Some e, record_call c (Some e) db)
           | None \<Rightarrow>
               (case those (map (bridge_row args) query) of
                  None \<Rightarrow> (Some StatementRejected, record_call c (Some StatementRejected) db)
                | Some pairs \<Rightarrow>
                    (None,
                     record_call c None
                       (write_tables q
                          (\<lambda>tb. tb\<lparr>product_variant_bridge := product_variant_bridge tb @
                                      bridge_rows (generated_id env k) (clock env k) pairs\<rparr>)
                          db)))))"

text \<open>
  Modelled from the spec: \<open>ProductRootWithSKUPrefixExists\<close> is declared in
  \<open>api/storage/storage.go\<close> but its code is not among the sources. Following section
  4.3 (existence by unique key), it answers whether a live root has the SKU prefix.
  \<open>GetWebhooksByEventType\<close> is only called by the handlers; the model keeps its error
  and leaves the webhooks out, since they are dispatched in separate goroutines.
\<close>

definition ProductRootWithSKUPrefixExists :: "environment \<Rightarrow> querier \<Rightarrow> string \<Rightarrow> database
    \<Rightarrow> (store_error + bool) \<times> database" where
  "ProductRootWithSKUPrefixExists env q sku db =
     (case fails env (length (history db)) of
        Some e \<Rightarrow> (Inl e, record_call (Call_ProductRootWithSKUPrefixExists sku) (Some e) db)
      | None \<Rightarrow>
          (Inr (\<exists>r\<in>set (product_roots (read_tables q db)).
                  r_SKUPrefix r = sku \<and> r_ArchivedOn r = None),
           record_call (Call_ProductRootWithSKUPrefixExists sku) None db))"

definition GetWebhooksByEventType :: "environment \<Rightarrow> querier \<Rightarrow> string \<Rightarrow> database
    \<Rightarrow> store_error option \<times> database" where
  "GetWebhooksByEventType env q eventType db =
     (fails env (length (history db)),
      record_call (Call_GetWebhooksByEventType eventType) (fails env (length (history db))) db)"


section \<open>The creation handler\<close>

text \<open>
  \<open>buildProductCreationHandler\<close> and \<open>createProductsInDBFromOptionRows\<close> of
  the product handlers, with \<open>createProductOptionAndValuesInDBFromInput\<close> of
  \<open>api/product_options.go\<close>. A handler returns its response, or the panic that
  ended it, and the database it leaves. The helpers \<open>notifyOfInvalidRequestBody\<close>
  (status 400), \<open>notifyOfInternalIssue\<close> (status 500) and
  \<open>respondThatRowDoesNotExist\<close> (status 404) are the constructors of the response.
\<close>

datatype response =
    InvalidRequestBody string
  | InternalIssue string
  | RowDoesNotExist string
  | StatusCreated ProductRoot
  | StatusOK Product

datatype fault = Panics panic | Fails store_error

definition newProductFromCreationInput :: "ProductCreationInput \<Rightarrow> Product" where
  "newProductFromCreationInput inp =
     \<lparr>p_ID = 0, p_ProductRootID = 0, p_Name = pci_Name inp, p_SKU = pci_SKU inp,
      p_UPC = pci_UPC inp, p_OptionSummary = [], p_Quantity = pci_Quantity inp,
      p_QuantityPerPackage = pci_QuantityPerPackage inp, p_ApplicableOptionValues = [],
      p_AvailableOn = (case pci_AvailableOn inp of Some t \<Rightarrow> t | None \<Rightarrow> 0),
      p_CreatedOn = 0, p_ArchivedOn = None\<rparr>"

text \<open>
  Modelled from the spec: \<open>createProductRootFromProduct\<close> is called by the handler
  but its code is not among the sources. The root takes the name of the product, its SKU
  as SKU prefix (section 4.4) and its quantity per package.
\<close>

definition createProductRootFromProduct :: "Product \<Rightarrow> ProductRoot" where
  "createProductRootFromProduct p =
     \<lparr>r_ID = 0, r_Name = p_Name p, r_SKUPrefix = p_SKU p,
      r_QuantityPerPackage = p_QuantityPerPackage p, r_Options = [], r_Products = [],
      r_CreatedOn = 0, r_ArchivedOn = None\<rparr>"

text \<open>
  The loop over \<open>in.Values\<close> of \<open>createProductOptionAndValuesInDBFromInput\<close>,
  and the function.
\<close>

fun create_values :: "environment \<Rightarrow> string list \<Rightarrow> ProductOption \<Rightarrow> database
    \<Rightarrow> (store_error + ProductOption) \<times> database" where
  "create_values env [] newProductOption db = (Inr newProductOption, db)"
| "create_values env (v # rest) newProductOption db =
     (let newOptionValue =
            \<lparr>ov_ID = 0, ov_ProductOptionID = po_ID newProductOption, ov_Value = v,
             ov_CreatedOn = 0, ov_ArchivedOn = None\<rparr> in
      case CreateProductOptionValue env TX newOptionValue db of
        (Inl e, db') \<Rightarrow> (Inl e, db')
      | (Inr (newOptionValueID, optionCreatedOn), db') \<Rightarrow>
          create_values env rest
            (newProductOption\<lparr>po_Values := po_Values newProductOption @
               [newOptionValue\<lparr>ov_ID := newOptionValueID, ov_CreatedOn := optionCreatedOn\<rparr>]\<rparr>)
            db')"

definition createProductOptionAndValuesInDBFromInput :: "environment \<Rightarrow> ProductOptionCreationInput
    \<Rightarrow> uint64 \<Rightarrow> database \<Rightarrow> (store_error + ProductOption) \<times> database" where
  "createProductOptionAndValuesInDBFromInput env inp productRootID db =
     (let newProductOption =
            \<lparr>po_ID = 0, po_Name = in_Name inp, po_ProductRootID = productRootID, po_Values = [],
             po_CreatedOn = 0, po_ArchivedOn = None\<rparr> in
      case CreateProductOption env TX newProductOption db of
        (Inl e, db') \<Rightarrow> (Inl e, db')
      | (Inr (i, t), db') \<Rightarrow>
          create_values env (in_Values inp) (newProductOption\<lparr>po_ID := i, po_CreatedOn := t\<rparr>) db')"

text \<open>
  The loop over \<open>productInput.Options\<close> of the handler. It stops at the first
  error; the handler then rolls back.
\<close>

fun create_options :: "environment \<Rightarrow> ProductOptionCreationInput list \<Rightarrow> ProductRoot \<Rightarrow> database
    \<Rightarrow> (store_error + ProductRoot) \<times> database" where
  "create_options env [] productRoot db = (Inr productRoot, db)"
| "create_options env (optionAndValues # rest) productRoot db =
     (case createProductOptionAndValuesInDBFromInput env optionAndValues (r_ID productRoot) db of
        (Inl e, db') \<Rightarrow> (Inl e, db')
      | (Inr opt, db') \<Rightarrow>
          create_options env rest (productRoot\<lparr>r_Options := r_Options productRoot @ [opt]\<rparr>) db')"

text \<open>
  \<open>createProductsInDBFromOptionRows\<close>: the copy of the base product that the loop
  fills for one combination, the loop, and the function.
\<close>

definition variant :: "ProductRoot \<Rightarrow> Product \<Rightarrow> simpleProductOption \<Rightarrow> Product" where
  "variant r np option =
     np\<lparr>p_ProductRootID := r_ID r,
        p_ApplicableOptionValues := OriginalValues option,
        p_OptionSummary := OptionSummary option,
        p_SKU := r_SKUPrefix r @ ''_'' @ SKUPostfix option\<rparr>"

fun create_products :: "environment \<Rightarrow> ProductRoot \<Rightarrow> Product \<Rightarrow> simpleProductOption list
    \<Rightarrow> Product list \<Rightarrow> database \<Rightarrow> (store_error + Product list) \<times> database" where
  "create_products env r np [] createdProducts db = (Inr createdProducts, db)"
| "create_products env r np (option # rest) createdProducts db =
     (let p = variant r np option in
      case CreateProduct env TX p db of
        (Inl e, db') \<Rightarrow> (Inl e, db')
      | (Inr (i, created, available), db') \<Rightarrow>
          (let p = p\<lparr>p_ID := i, p_CreatedOn := created, p_AvailableOn := available\<rparr> in
           case CreateMultipleProductVariantBridgesForProductID env TX (p_ID p) (IDs option) db' of
             (Some e, db'') \<Rightarrow> (Inl e, db'')
           | (None, db'') \<Rightarrow> create_products env r np rest (createdProducts @ [p]) db''))"

definition createProductsInDBFromOptionRows :: "environment \<Rightarrow> ProductRoot \<Rightarrow> Product \<Rightarrow> database
    \<Rightarrow> (fault + Product list) \<times> database" where
  "createProductsInDBFromOptionRows env r np db =
     (case generateCartesianProductForOptions (ToLower env) (r_Options r) of
        Inl p \<Rightarrow> (Inl (Panics p), db)
      | Inr productOptionData \<Rightarrow>
          (case create_products env r np productOptionData [] db of
             (Inl e, db') \<Rightarrow> (Inl (Fails e), db')
           | (Inr createdProducts, db') \<Rightarrow> (Inr createdProducts, db')))"

text \<open>
  The end of the handler, from \<open>tx.Commit()\<close> on, which both branches of
  \<open>if len(productInput.Options) == 0\<close> reach.
\<close>

definition commit_and_respond :: "environment \<Rightarrow> ProductRoot \<Rightarrow> database
    \<Rightarrow> (panic + response) \<times> database" where
  "commit_and_respond env productRoot db =
     (case Commit env db of
        (Some e, db') \<Rightarrow> (Inr (InternalIssue ''close out transaction''), db')
      | (None, db') \<Rightarrow>
          (case GetWebhooksByEventType env DB ''product_created'' db' of
             (err, db'') \<Rightarrow>
               if err \<noteq> None \<and> err \<noteq> Some ErrNoRows
               then (Inr (InternalIssue ''retrieve webhooks from database''), db'')
               else (Inr (StatusCreated productRoot), db'')))"

text \<open>
  The request is the result of \<open>validateRequestInput\<close>, a helper outside the sources:
  its error, or the decoded input. The round trip
  \<open>uint32(math.Max(float64(q), 1))\<close> is exact, since every \<open>uint32\<close> is a
  \<open>float64\<close>.
\<close>

definition buildProductCreationHandler :: "environment \<Rightarrow> string + ProductCreationInput \<Rightarrow> database
    \<Rightarrow> (panic + response) \<times> database" where
  "buildProductCreationHandler env req db =
     (case req of
        Inl err \<Rightarrow> (Inr (InvalidRequestBody err), db)
      | Inr productInput \<Rightarrow>
          if \<not> restrictedStringIsValid env (pci_SKU productInput) then
            (Inr (InvalidRequestBody
                    (''The sku received ('' @ pci_SKU productInput @ '') is invalid'')), db)
          else
            (case ProductRootWithSKUPrefixExists env DB (pci_SKU productInput) db of
               (found, db0) \<Rightarrow>
                 if found \<noteq> Inr False then
                   (Inr (InvalidRequestBody
                           (''product with sku '' @ [CHR 0x27] @ pci_SKU productInput @ [CHR 0x27]
                              @ '' already exists'')), db0)
                 else
                   (case Begin env db0 of
                      (Some e, db1) \<Rightarrow>
                        (Inr (InternalIssue ''create new database transaction''), db1)
                    | (None, db1) \<Rightarrow>
                        (let newProduct = newProductFromCreationInput productInput;
                             productRoot = createProductRootFromProduct newProduct in
                         case CreateProductRoot env TX productRoot db1 of
                           (Inl e, db2) \<Rightarrow>
                             (Inr (InternalIssue ''insert product options and values in database''),
                              Rollback env db2)
                         | (Inr (i, created), db2) \<Rightarrow>
                             (let productRoot = productRoot\<lparr>r_ID := i, r_CreatedOn := created\<rparr>;
                                  newProduct = newProduct\<lparr>p_QuantityPerPackage :=
                                    word_of_nat (max (unat (p_QuantityPerPackage newProduct)) 1)\<rparr> in
                              case create_options env (pci_Options productInput) productRoot db2 of
                                (Inl e, db3) \<Rightarrow>
                                  (Inr (InternalIssue
                                          ''insert product options and values in database''),
                                   Rollback env db3)
                              | (Inr productRoot, db3) \<Rightarrow>
                                  if pci_Options productInput = [] then
                                    (let newProduct =
                                           newProduct\<lparr>p_ProductRootID := r_ID productRoot\<rparr> in
                                     case CreateProduct env TX newProduct db3 of
                                       (Inl e, db4) \<Rightarrow>
                                         (Inr (InternalIssue ''insert product in database''),
                                          Rollback env db4)
                                     | (Inr (pid, pcreated, available), db4) \<Rightarrow>
                                         commit_and_respond env
                                           (productRoot\<lparr>r_Options := [],
                                              r_Products := [newProduct\<lparr>p_ID := pid,
                                                p_CreatedOn := pcreated,
                                                p_AvailableOn := available\<rparr>]\<rparr>) db4)
                                  else
                                    (case createProductsInDBFromOptionRows env productRoot
                                            newProduct db3 of
                                       (Inl (Panics p), db4) \<Rightarrow> (Inl p, db4)
                                     | (Inl (Fails e), db4) \<Rightarrow>
                                         (Inr (InternalIssue ''insert products in database''),
                                          Rollback env db4)
                                     | (Inr createdProducts, db4) \<Rightarrow>
                                         commit_and_respond env
                                           (productRoot\<lparr>r_Products := createdProducts\<rparr>)
                                           db4))))))"

text \<open>
  The earlier version of the creation handler, also among the sources. It differs from
  the one above in three places: \<open>createProductsInDBFromOptionRows\<close> assigns the
  results of \<open>CreateProduct\<close> to \<open>p.ID, p.AvailableOn, p.CreatedOn\<close>, the
  quantity per package is passed on as it came, and no webhooks are looked up after the
  commit.
\<close>

fun create_products_earlier :: "environment \<Rightarrow> ProductRoot \<Rightarrow> Product
    \<Rightarrow> simpleProductOption list \<Rightarrow> Product list \<Rightarrow> database
    \<Rightarrow> (store_error + Product list) \<times> database" where
  "create_products_earlier env r np [] createdProducts db = (Inr createdProducts, db)"
| "create_products_earlier env r np (option # rest) createdProducts db =
     (let p = variant r np option in
      case CreateProduct env TX p db of
        (Inl e, db') \<Rightarrow> (Inl e, db')
      | (Inr (i, second, third), db') \<Rightarrow>
          (let p = p\<lparr>p_ID := i, p_AvailableOn := second, p_CreatedOn := third\<rparr> in
           case CreateMultipleProductVariantBridgesForProductID env TX (p_ID p) (IDs option) db' of
             (Some e, db'') \<Rightarrow> (Inl e, db'')
           | (None, db'') \<Rightarrow> create_products_earlier env r np rest (createdProducts @ [p]) db''))"

definition createProductsInDBFromOptionRows_earlier :: "environment \<Rightarrow> ProductRoot \<Rightarrow> Product
    \<Rightarrow> database \<Rightarrow> (fault + Product list) \<times> database" where
  "createProductsInDBFromOptionRows_earlier env r np db =
     (case generateCartesianProductForOptions (ToLower env) (r_Options r) of
        Inl p \<Rightarrow> (Inl (Panics p), db)
      | Inr productOptionData \<Rightarrow>
          (case create_products_earlier env r np productOptionData [] db of
             (Inl e, db') \<Rightarrow> (Inl (Fails e), db')
           | (Inr createdProducts, db') \<Rightarrow> (Inr createdProducts, db')))"

definition commit_and_respond_earlier :: "environment \<Rightarrow> ProductRoot \<Rightarrow> database
    \<Rightarrow> (panic + response) \<times> database" where
  "commit_and_respond_earlier env productRoot db =
     (case Commit env db of
        (Some e, db') \<Rightarrow> (Inr (InternalIssue ''close out transaction''), db')
      | (None, db') \<Rightarrow> (Inr (StatusCreated productRoot), db'))"

definition buildProductCreationHandler_earlier :: "environment \<Rightarrow> string + ProductCreationInput
    \<Rightarrow> database \<Rightarrow> (panic + response) \<times> database" where
  "buildProductCreationHandler_earlier env req db =
     (case req of
        Inl err \<Rightarrow> (Inr (InvalidRequestBody err), db)
      | Inr productInput \<Rightarrow>
          if \<not> restrictedStringIsValid env (pci_SKU productInput) then
            (Inr (InvalidRequestBody
                    (''The sku received ('' @ pci_SKU productInput @ '') is invalid'')), db)
          else
            (case ProductRootWithSKUPrefixExists env DB (pci_SKU productInput) db of
               (found, db0) \<Rightarrow>
                 if found \<noteq> Inr False then
                   (Inr (InvalidRequestBody
                           (''product with sku '' @ [CHR 0x27] @ pci_SKU productInput @ [CHR 0x27]
                              @ '' already exists'')), db0)
                 else
                   (case Begin env db0 of
                      (Some e, db1) \<Rightarrow>
                        (Inr (InternalIssue ''create new database transaction''), db1)
                    | (None, db1) \<Rightarrow>
                        (let newProduct = newProductFromCreationInput productInput;
                             productRoot = createProductRootFromProduct newProduct in
                         case CreateProductRoot env TX productRoot db1 of
                           (Inl e, db2) \<Rightarrow>
                             (Inr (InternalIssue ''insert product options and values in database''),
                              Rollback env db2)
                         | (Inr (i, created), db2) \<Rightarrow>
                             (let productRoot = productRoot\<lparr>r_ID := i, r_CreatedOn := created\<rparr> in
                              case create_options env (pci_Options productInput) productRoot db2 of
                                (Inl e, db3) \<Rightarrow>
                                  (Inr (InternalIssue
                                          ''insert product options and values in database''),
                                   Rollback env db3)
                              | (Inr productRoot, db3) \<Rightarrow>
                                  if pci_Options productInput = [] then
                                    (let newProduct =
                                           newProduct\<lparr>p_ProductRootID := r_ID productRoot\<rparr> in
                                     case CreateProduct env TX newProduct db3 of
                                       (Inl e, db4) \<Rightarrow>
                                         (Inr (InternalIssue ''insert product in database''),
                                          Rollback env db4)
                                     | (Inr (pid, second, third), db4) \<Rightarrow>
                                         commit_and_respond_earlier env
                                           (productRoot\<lparr>r_Options := [],
                                              r_Products := [newProduct\<lparr>p_ID := pid,
                                                p_AvailableOn := second,
                                                p_CreatedOn := third\<rparr>]\<rparr>) db4)
                                  else
                                    (case createProductsInDBFromOptionRows_earlier env productRoot
                                            newProduct db3 of
                                       (Inl (Panics p), db4) \<Rightarrow> (Inl p, db4)
                                     | (Inl (Fails e), db4) \<Rightarrow>
                                         (Inr (InternalIssue ''insert products in database''),
                                          Rollback env db4)
                                     | (Inr createdProducts, db4) \<Rightarrow>
                                         commit_and_respond_earlier env
                                           (productRoot\<lparr>r_Products := createdProducts\<rparr>)
                                           db4))))))"

section \<open>Archiving\<close>

text \<open>
  The archive statements of the sources, as functions on the rows of their table: the
  updated rows and the rows of the \<open>RETURNING\<close> clause. \<open>now\<close> is the value of
  \<open>NOW()\<close>.
  \<^item> \<open>productVariantBridgeDeletionQuery\<close>:
    \<open>UPDATE product_variant_bridge SET archived_on = NOW() WHERE id = $1 RETURNING archived_on\<close>
  \<^item> \<open>productVariantBridgeDeletionQueryByProductID\<close>:
    \<open>UPDATE product_variant_bridge SET archived_on = NOW() WHERE product_id = $1 AND
    archived_on IS NULL RETURNING archived_on\<close>
  \<^item> \<open>productOptionDeletionQuery\<close>:
    \<open>UPDATE product_options SET archived_on = NOW() WHERE id = $1 AND archived_on IS NULL\<close>
  \<^item> \<open>productOptionValuesDeletionQueryByOptionID\<close>:
    \<open>UPDATE product_option_values SET archived_on = NOW() WHERE product_option_id = $1 AND
    archived_on IS NULL\<close>
\<close>

definition productVariantBridgeDeletionQuery :: "time \<Rightarrow> uint64 \<Rightarrow> ProductVariantBridge list
    \<Rightarrow> ProductVariantBridge list \<times> time list" where
  "productVariantBridgeDeletionQuery now i rows =
     (map (\<lambda>b. if b_ID b = i then b\<lparr>b_ArchivedOn := Some now\<rparr> else b) rows,
      map (\<lambda>b. now) (filter (\<lambda>b. b_ID b = i) rows))"

definition productVariantBridgeDeletionQueryByProductID :: "time \<Rightarrow> uint64
    \<Rightarrow> ProductVariantBridge list \<Rightarrow> ProductVariantBridge list \<times> time list" where
  "productVariantBridgeDeletionQueryByProductID now productID rows =
     (map (\<lambda>b. if b_ProductID b = productID \<and> b_ArchivedOn b = None
                then b\<lparr>b_ArchivedOn := Some now\<rparr> else b) rows,
      map (\<lambda>b. now) (filter (\<lambda>b. b_ProductID b = productID \<and> b_ArchivedOn b = None) rows))"

definition productOptionDeletionQuery :: "time \<Rightarrow> uint64 \<Rightarrow> ProductOption list
    \<Rightarrow> ProductOption list" where
  "productOptionDeletionQuery now i rows =
     map (\<lambda>opt. if po_ID opt = i \<and> po_ArchivedOn opt = None
                  then opt\<lparr>po_ArchivedOn := Some now\<rparr> else opt) rows"

definition productOptionValuesDeletionQueryByOptionID :: "time \<Rightarrow> uint64
    \<Rightarrow> ProductOptionValue list \<Rightarrow> ProductOptionValue list" where
  "productOptionValuesDeletionQueryByOptionID now optionID rows =
     map (\<lambda>v. if ov_ProductOptionID v = optionID \<and> ov_ArchivedOn v = None
                then v\<lparr>ov_ArchivedOn := Some now\<rparr> else v) rows"

text \<open>
  \<open>QueryRow(\<dots>).Scan(&t)\<close> reads the first returned row and gives \<open>sql.ErrNoRows\<close>
  when there is none.
\<close>

definition scan_first :: "'a list \<Rightarrow> store_error + 'a" where
  "scan_first rows = (case rows of [] \<Rightarrow> Inl ErrNoRows | x # _ \<Rightarrow> Inr x)"

text \<open>
  \<open>DeleteProductVariantBridge\<close> and \<open>DeleteProductVariantBridgeByProductID\<close> of
  \<open>api/storage/postgres/product_variant_bridge.go\<close>: run the statement, scan the
  timestamp. A call that the environment lets fail changes nothing.
\<close>

definition archive_rows :: "environment \<Rightarrow> call \<Rightarrow> (time \<Rightarrow> tables \<Rightarrow> tables \<times> time list)
    \<Rightarrow> querier \<Rightarrow> database \<Rightarrow> (store_error + time) \<times> database" where
  "archive_rows env c statement q db =
     (let k = length (history db) in
      case fails env k of
        Some e \<Rightarrow> (Inl e, record_call c (Some e) db)
      | None \<Rightarrow>
          (let t = scan_first (snd (statement (clock env k) (read_tables q db))) in
           (t, record_call c (case t of Inl e \<Rightarrow> Some e | Inr _ \<Rightarrow> None)
                 (write_tables q (\<lambda>tb. fst (statement (clock env k) tb)) db))))"

definition DeleteProductVariantBridge :: "environment \<Rightarrow> querier \<Rightarrow> uint64 \<Rightarrow> database
    \<Rightarrow> (store_error + time) \<times> database" where
  "DeleteProductVariantBridge env q i =
     archive_rows env (Call_DeleteProductVariantBridge i)
       (\<lambda>now tb. case productVariantBridgeDeletionQuery now i (product_variant_bridge tb) of
                    (rows, returned) \<Rightarrow> (tb\<lparr>product_variant_bridge := rows\<rparr>, returned)) q"

definition DeleteProductVariantBridgeByProductID :: "environment \<Rightarrow> querier \<Rightarrow> uint64 \<Rightarrow> database
    \<Rightarrow> (store_error + time) \<times> database" where
  "DeleteProductVariantBridgeByProductID env q productID =
     archive_rows env (Call_DeleteProductVariantBridgeByProductID productID)
       (\<lambda>now tb. case productVariantBridgeDeletionQueryByProductID now productID
                         (product_variant_bridge tb) of
                    (rows, returned) \<Rightarrow> (tb\<lparr>product_variant_bridge := rows\<rparr>, returned)) q"

text \<open>
  Modelled from the spec: \<open>DeleteProduct\<close> and \<open>GetProductBySKU\<close> are declared in
  \<open>api/storage/storage.go\<close> but their code is not among the sources. Following
  sections 4.3 and 4.5, archiving a product stamps the live row with that identifier and
  returns the timestamp, and a product is found by its SKU when a live row has it.
\<close>

definition DeleteProduct :: "environment \<Rightarrow> querier \<Rightarrow> uint64 \<Rightarrow> database
    \<Rightarrow> (store_error + time) \<times> database" where
  "DeleteProduct env q i =
     archive_rows env (Call_DeleteProduct i)
       (\<lambda>now tb.
          (tb\<lparr>products := map (\<lambda>p. if p_ID p = i \<and> p_ArchivedOn p = None
                                     then p\<lparr>p_ArchivedOn := Some now\<rparr> else p) (products tb)\<rparr>,
           map (\<lambda>p. now) (filter (\<lambda>p. p_ID p = i \<and> p_ArchivedOn p = None) (products tb)))) q"

definition GetProductBySKU :: "environment \<Rightarrow> querier \<Rightarrow> string \<Rightarrow> database
    \<Rightarrow> (store_error + Product) \<times> database" where
  "GetProductBySKU env q sku db =
     (case fails env (length (history db)) of
        Some e \<Rightarrow> (Inl e, record_call (Call_GetProductBySKU sku) (Some e) db)
      | None \<Rightarrow>
          (let found = scan_first (filter (\<lambda>p. p_SKU p = sku \<and> p_ArchivedOn p = None)
                                     (products (read_tables q db))) in
           (found, record_call (Call_GetProductBySKU sku)
                     (case found of Inl e \<Rightarrow> Some e | Inr _ \<Rightarrow> None) db)))"

text \<open>
  \<open>buildProductDeletionHandler\<close> of the product handlers: the variant is looked up by
  its SKU, and inside one transaction its bridge rows are archived, then the variant. A
  variant without bridge rows makes the first statement return \<open>sql.ErrNoRows\<close>, which
  the handler lets pass.
\<close>

definition buildProductDeletionHandler :: "environment \<Rightarrow> string \<Rightarrow> database
    \<Rightarrow> response \<times> database" where
  "buildProductDeletionHandler env sku db =
     (case GetProductBySKU env DB sku db of
        (Inl e, db0) \<Rightarrow>
          if e = ErrNoRows then (RowDoesNotExist sku, db0)
          else (InternalIssue ''retrieving discount from database'', db0)
      | (Inr product, db0) \<Rightarrow>
          (case Begin env db0 of
             (Some e, db1) \<Rightarrow> (InternalIssue ''create new database transaction'', db1)
           | (None, db1) \<Rightarrow>
               (case DeleteProductVariantBridgeByProductID env TX (p_ID product) db1 of
                  (bridges, db2) \<Rightarrow>
                    if isl bridges \<and> bridges \<noteq> Inl ErrNoRows then
                      (InternalIssue ''archive product variant bridges in database'',
                       Rollback env db2)
                    else
                      (case DeleteProduct env TX (p_ID product) db2 of
                         (Inl e, db3) \<Rightarrow>
                           (InternalIssue ''archive product in database'', Rollback env db3)
                       | (Inr archiveTime, db3) \<Rightarrow>
                           (case Commit env db3 of
                              (Some e, db4) \<Rightarrow> (InternalIssue ''close out transaction'', db4)
                            | (None, db4) \<Rightarrow>
                                (case GetWebhooksByEventType env DB ''product_archived'' db4 of
                                   (err, db5) \<Rightarrow>
                                     if err \<noteq> None \<and> err \<noteq> Some ErrNoRows then
                                       (InternalIssue ''retrieve webhooks from database'', db5)
                                     else
                                       (StatusOK (product\<lparr>p_ArchivedOn := Some archiveTime\<rparr>),
                                        db5)))))))"

text \<open>
  The earlier version of the handler, also among the sources: it has no webhooks, and
  any error of the first statement, \<open>sql.ErrNoRows\<close> included, makes it roll back.
\<close>

definition buildProductDeletionHandler_earlier :: "environment \<Rightarrow> string \<Rightarrow> database
    \<Rightarrow> response \<times> database" where
  "buildProductDeletionHandler_earlier env sku db =
     (case GetProductBySKU env DB sku db of
        (Inl e, db0) \<Rightarrow>
          if e = ErrNoRows then (RowDoesNotExist sku, db0)
          else (InternalIssue ''retrieving discount from database'', db0)
      | (Inr existingProduct, db0) \<Rightarrow>
          (case Begin env db0 of
             (Some e, db1) \<Rightarrow> (InternalIssue ''create new database transaction'', db1)
           | (None, db1) \<Rightarrow>
               (case DeleteProductVariantBridgeByProductID env TX (p_ID existingProduct) db1 of
                  (Inl e, db2) \<Rightarrow>
                    (InternalIssue ''archive product in database'', Rollback env db2)
                | (Inr _, db2) \<Rightarrow>
                    (case DeleteProduct env TX (p_ID existingProduct) db2 of
                       (Inl e, db3) \<Rightarrow>
                         (InternalIssue ''archive product in database'', Rollback env db3)
                     | (Inr archiveTime, db3) \<Rightarrow>
                         (case Commit env db3 of
                            (Some e, db4) \<Rightarrow> (InternalIssue ''close out transaction'', db4)
                          | (None, db4) \<Rightarrow>
                              (StatusOK (existingProduct\<lparr>p_ArchivedOn := Some archiveTime\<rparr>),
                               db4))))))"

section \<open>Example data\<close>

text \<open>
  The scenario of the specification: a shirt in three sizes and two colours. On ASCII
  strings \<open>strings.ToLower\<close> maps the letters A to Z to a to z and keeps every other
  character.
\<close>

definition ascii_lower :: "char \<Rightarrow> char" where
  "ascii_lower c =
     (case map_of (zip ''ABCDEFGHIJKLMNOPQRSTUVWXYZ'' ''abcdefghijklmnopqrstuvwxyz'') c of
        Some l \<Rightarrow> l
      | None \<Rightarrow> c)"

definition ToLower_ascii :: "string \<Rightarrow> string" where
  "ToLower_ascii s = map ascii_lower s"

definition example_value :: "uint64 \<Rightarrow> uint64 \<Rightarrow> string \<Rightarrow> ProductOptionValue" where
  "example_value i oid v =
     \<lparr>ov_ID = i, ov_ProductOptionID = oid, ov_Value = v, ov_CreatedOn = 0,
      ov_ArchivedOn = None\<rparr>"

definition example_size :: ProductOption where
  "example_size =
     \<lparr>po_ID = 1, po_Name = ''Size'', po_ProductRootID = 1,
      po_Values = [example_value 1 1 ''Small'', example_value 2 1 ''Medium'',
                   example_value 3 1 ''Large''],
      po_CreatedOn = 0, po_ArchivedOn = None\<rparr>"

definition example_color :: ProductOption where
  "example_color =
     \<lparr>po_ID = 2, po_Name = ''Color'', po_ProductRootID = 1,
      po_Values = [example_value 4 2 ''Red'', example_value 5 2 ''Blue''],
      po_CreatedOn = 0, po_ArchivedOn = None\<rparr>"

text \<open>
  An environment for the examples: it accepts SKUs made of letters, digits, dashes and
  underscores, numbers the generated identifiers by the position of the call, and lets
  the calls fail that the argument names. The payload is the shirt of the specification.
\<close>

definition example_sku_valid :: "string \<Rightarrow> bool" where
  "example_sku_valid s \<longleftrightarrow>
     s \<noteq> [] \<and>
     list_all
       (\<lambda>c. c \<in> set ''abcdefghijklmnopqrstuvwxyzABCDEFGHIJKLMNOPQRSTUVWXYZ0123456789-_'') s"

definition example_env :: "(nat \<Rightarrow> store_error option) \<Rightarrow> environment" where
  "example_env f =
     \<lparr>ToLower = ToLower_ascii, restrictedStringIsValid = example_sku_valid, fails = f,
      generated_id = (\<lambda>k. of_nat k), clock = (\<lambda>k. 1000 + k)\<rparr>"

definition no_failure :: "nat \<Rightarrow> store_error option" where
  "no_failure k = None"

definition failure_at :: "nat \<Rightarrow> store_error \<Rightarrow> nat \<Rightarrow> store_error option" where
  "failure_at n e k = (if k = n then Some e else None)"

definition empty_tables :: tables where
  "empty_tables =
     \<lparr>product_roots = [], product_options = [], product_option_values = [], products = [],
      product_variant_bridge = []\<rparr>"

definition empty_db :: database where
  "empty_db = \<lparr>committed = empty_tables, pending = None, history = []\<rparr>"

definition example_shirt :: "ProductOptionCreationInput list \<Rightarrow> ProductCreationInput" where
  "example_shirt opts =
     \<lparr>pci_Name = ''T-Shirt'', pci_SKU = ''shirt'', pci_UPC = [], pci_Quantity = 10,
      pci_QuantityPerPackage = 0, pci_AvailableOn = None, pci_Options = opts\<rparr>"

definition size_input :: ProductOptionCreationInput where
  "size_input = \<lparr>in_Name = ''Size'', in_Values = [''Small'', ''Medium'', ''Large'']\<rparr>"

definition color_input :: ProductOptionCreationInput where
  "color_input = \<lparr>in_Name = ''Color'', in_Values = [''Red'', ''Blue'']\<rparr>"

definition empty_input :: ProductOptionCreationInput where
  "empty_input = \<lparr>in_Name = ''Material'', in_Values = []\<rparr>"




text \<open>
  A database that holds one variant of the shirt and its two bridge rows, the second of
  them archived at time 950.
\<close>

definition example_variant :: Product where
  "example_variant =
     \<lparr>p_ID = 7, p_ProductRootID = 2, p_Name = ''T-Shirt'', p_SKU = ''shirt_small_red'',
      p_UPC = [], p_OptionSummary = ''Size: Small, Color: Red'', p_Quantity = 10,
      p_QuantityPerPackage = 1, p_ApplicableOptionValues = [], p_AvailableOn = 0,
      p_CreatedOn = 900, p_ArchivedOn = None\<rparr>"

definition example_bridge :: "uint64 \<Rightarrow> uint64 \<Rightarrow> time option \<Rightarrow> ProductVariantBridge" where
  "example_bridge i v archived =
     \<lparr>b_ID = i, b_ProductID = 7, b_ProductOptionValueID = v, b_CreatedOn = 900,
      b_ArchivedOn = archived\<rparr>"

definition stocked_db :: database where
  "stocked_db =
     \<lparr>committed = empty_tables\<lparr>products := [example_variant],
                                product_variant_bridge :=
                                  [example_bridge 1 1 None, example_bridge 2 4 (Some 950)]\<rparr>,
      pending = None, history = []\<rparr>"

text \<open>
  A database that holds one product without options and no bridge row, as the creation
  handler leaves it for a payload without options.
\<close>

definition example_plain :: Product where
  "example_plain =
     \<lparr>p_ID = 3, p_ProductRootID = 2, p_Name = ''T-Shirt'', p_SKU = ''shirt'', p_UPC = [],
      p_OptionSummary = [], p_Quantity = 10, p_QuantityPerPackage = 1,
      p_ApplicableOptionValues = [], p_AvailableOn = 0, p_CreatedOn = 900, p_ArchivedOn = None\<rparr>"

definition unbridged_db :: database where
  "unbridged_db =
     \<lparr>committed = empty_tables\<lparr>products := [example_plain]\<rparr>, pending = None, history = []\<rparr>"

section \<open>Runs of the handlers\<close>

text \<open>
  Vocabulary for the statements about a run: the calls a handler made, whether all of a
  list of calls succeeded, and the shape of a sequence of calls made inside a
  transaction (\<open>tx_run\<close>): every call is of a given kind, the committed tables are
  untouched, and either all calls succeeded or only the last one failed. The payloads
  that the creation handler turns away before it opens a transaction are those of
  \<open>rejected_before_transaction\<close>.
\<close>

definition all_ok :: "(call \<times> store_error option) list \<Rightarrow> bool" where
  "all_ok new \<longleftrightarrow> (\<forall>x\<in>set new. snd x = None)"

definition tx_run :: "(call \<Rightarrow> bool) \<Rightarrow> database \<Rightarrow> database \<Rightarrow> store_error option \<Rightarrow> bool" where
  "tx_run K db db' err \<longleftrightarrow>
     committed db' = committed db \<and> (pending db' = None \<longleftrightarrow> pending db = None) \<and>
     (\<exists>new. history db' = history db @ new \<and> (\<forall>x\<in>set new. K (fst x)) \<and>
        (case err of
           None \<Rightarrow> all_ok new
         | Some e \<Rightarrow> new \<noteq> [] \<and> snd (last new) = Some e \<and> all_ok (butlast new)))"

definition err_of :: "'e + 'a \<Rightarrow> 'e option" where
  "err_of r = (case r of Inl e \<Rightarrow> Some e | Inr _ \<Rightarrow> None)"

fun is_creation :: "call \<Rightarrow> bool" where
  "is_creation (Call_CreateProductRoot r) = True"
| "is_creation (Call_CreateProductOption opt) = True"
| "is_creation (Call_CreateProductOptionValue v) = True"
| "is_creation (Call_CreateProduct p) = True"
| "is_creation (Call_CreateMultipleProductVariantBridgesForProductID i vids) = True"
| "is_creation c = False"

definition option_call :: "call \<Rightarrow> bool" where
  "option_call c \<longleftrightarrow> (\<exists>opt. c = Call_CreateProductOption opt) \<or> (\<exists>v. c = Call_CreateProductOptionValue v)"

definition product_call :: "ProductRoot \<Rightarrow> Product \<Rightarrow> simpleProductOption list \<Rightarrow> call
    \<Rightarrow> bool" where
  "product_call r np combos c \<longleftrightarrow>
     (\<exists>option\<in>set combos. c = Call_CreateProduct (variant r np option)) \<or>
     (\<exists>option\<in>set combos. \<exists>i.
        c = Call_CreateMultipleProductVariantBridgesForProductID i (IDs option))"

definition tx_call :: "ProductCreationInput \<Rightarrow> call \<Rightarrow> bool" where
  "tx_call inp c \<longleftrightarrow>
     is_creation c \<and>
     (\<forall>p. c = Call_CreateProduct p \<longrightarrow>
          p_QuantityPerPackage p = max (pci_QuantityPerPackage inp) 1) \<and>
     (\<forall>r. c = Call_CreateProductRoot r \<longrightarrow>
          r = createProductRootFromProduct (newProductFromCreationInput inp))"

definition calls_made :: "database \<Rightarrow> database \<Rightarrow> (call \<times> store_error option) list" where
  "calls_made db db' = drop (length (history db)) (history db')"

definition rejected_before_transaction :: "environment \<Rightarrow> string + ProductCreationInput \<Rightarrow> database
    \<Rightarrow> bool" where
  "rejected_before_transaction env req db =
     (case req of
        Inl err \<Rightarrow> True
      | Inr inp \<Rightarrow>
          \<not> restrictedStringIsValid env (pci_SKU inp) \<or>
          fst (ProductRootWithSKUPrefixExists env DB (pci_SKU inp) db) \<noteq> Inr False)"

text \<open>
  \<open>all_succeed\<close>: the environment lets no call fail. A statement that PostgreSQL
  does not accept is rejected all the same.
\<close>

definition all_succeed :: "environment \<Rightarrow> bool" where
  "all_succeed env \<longleftrightarrow> (\<forall>k. fails env k = None)"

definition same_variants :: "tables \<Rightarrow> tables \<Rightarrow> bool" where
  "same_variants t t' \<longleftrightarrow>
     products t' = products t \<and> product_variant_bridge t' = product_variant_bridge t"

text \<open>
  The sequences of calls that a deletion handler can make for a SKU, the order of the
  archive calls in a sequence (the call that archives a product comes directly after the
  call that archives the bridge rows of that product, in a transaction that was opened two
  calls before and that the next call ends), and what the response says about the run.
\<close>

definition archive_sequence :: "string \<Rightarrow> (call \<times> store_error option) list \<Rightarrow> bool" where
  "archive_sequence sku calls \<longleftrightarrow>
     (\<exists>e. calls = [(Call_GetProductBySKU sku, Some e)]) \<or>
     (\<exists>e. calls = [(Call_GetProductBySKU sku, None), (Call_Begin, Some e)]) \<or>
     (\<exists>x e r. calls = [(Call_GetProductBySKU sku, None), (Call_Begin, None),
                       (Call_DeleteProductVariantBridgeByProductID x, Some e), (Call_Rollback, r)]) \<or>
     (\<exists>x b e r. calls = [(Call_GetProductBySKU sku, None), (Call_Begin, None),
                         (Call_DeleteProductVariantBridgeByProductID x, b),
                         (Call_DeleteProduct x, Some e), (Call_Rollback, r)]) \<or>
     (\<exists>x b c rest. calls = [(Call_GetProductBySKU sku, None), (Call_Begin, None),
                            (Call_DeleteProductVariantBridgeByProductID x, b),
                            (Call_DeleteProduct x, None), (Call_Commit, c)] @ rest \<and>
                   (rest = [] \<or> (\<exists>w. rest = [(Call_GetWebhooksByEventType ''product_archived'', w)])))"

definition bridges_before_variant :: "(call \<times> store_error option) list \<Rightarrow> bool" where
  "bridges_before_variant calls \<longleftrightarrow>
     (\<forall>i<length calls. \<forall>x. fst (calls ! i) = Call_DeleteProduct x \<longrightarrow>
        2 \<le> i \<and> calls ! (i - 2) = (Call_Begin, None) \<and>
        fst (calls ! (i - 1)) = Call_DeleteProductVariantBridgeByProductID x \<and>
        Suc i < length calls \<and> fst (calls ! Suc i) \<in> {Call_Commit, Call_Rollback})"

definition archive_outcome :: "response \<Rightarrow> database \<Rightarrow> database \<Rightarrow> bool" where
  "archive_outcome out db db' \<longleftrightarrow>
     ((Call_Commit, None) \<in> set (calls_made db db') \<or> committed db' = committed db) \<and>
     (\<forall>p. out = StatusOK p \<longrightarrow>
        (\<exists>b. take 5 (calls_made db db') =
           [(Call_GetProductBySKU (p_SKU p), None), (Call_Begin, None),
            (Call_DeleteProductVariantBridgeByProductID (p_ID p), b),
            (Call_DeleteProduct (p_ID p), None), (Call_Commit, None)]))"

text \<open>
  Odometer order, as the specification words it: the combinations of a list of value
  lists, the value of the first list changing slowest and the value of the last list
  changing fastest. For every value of the first list, in order, come all the
  combinations of the remaining lists, themselves in odometer order.
\<close>

fun odometer_order :: "'a list list \<Rightarrow> 'a list list" where
  "odometer_order [] = [[]]"
| "odometer_order (vs # rest) =
     concat (map (\<lambda>v. map (\<lambda>combination. v # combination) (odometer_order rest)) vs)"

subsection \<open>What the enumerator returns\<close>

text \<open>
  The index vectors in the order the loop visits them, and the invariant of the loop:
  every position but the first is inside its slice.
\<close>

definition index_lists :: "'a list list \<Rightarrow> nat list list" where
  "index_lists sl = product_lists (map (\<lambda>s. [0..<length s]) sl)"

definition loop_inv :: "nat list \<Rightarrow> 'a list list \<Rightarrow> bool" where
  "loop_inv ix sl \<longleftrightarrow>
     length ix = length sl \<and>
     (\<forall>i. 0 < i \<and> i < length sl \<longrightarrow> ix ! i < length (sl ! i))"


lemma nth_concat_uniform:
  "\<forall>x\<in>set xs. length (f x) = m \<Longrightarrow> d < length xs \<Longrightarrow> r < m \<Longrightarrow>
   concat (map f xs) ! (d * m + r) = f (xs ! d) ! r"
proof (induction xs arbitrary: d)
  case Nil
  then show ?case by simp
next
  case (Cons x xs)
  show ?case
  proof (cases d)
    case 0
    then show ?thesis using Cons.prems by (simp add: nth_append)
  next
    case (Suc d')
    then show ?thesis using Cons.prems Cons.IH [of d'] by (simp add: nth_append)
  qed
qed

lemma length_product_lists_prod:
  "length (product_lists xss) = prod_list (map length xss)"
  by (induction xss) (simp_all add: length_concat comp_def sum_list_triv)

lemma length_index_lists: "length (index_lists sl) = prod_list (map length sl)"
  by (simp add: index_lists_def length_product_lists_prod comp_def)

lemma index_lists_nth:
  "length ix = length sl \<Longrightarrow> \<forall>i<length sl. ix ! i < length (sl ! i) \<Longrightarrow>
   index_lists sl ! rank (map length sl) ix = ix"
proof (induction sl arbitrary: ix)
  case Nil
  then show ?case by (simp add: index_lists_def)
next
  case (Cons s sl)
  then obtain d ds where ix: "ix = d # ds" by (cases ix) auto
  have d: "d < length s" using Cons.prems(2) ix by auto
  have len: "length ds = length sl" using Cons.prems ix by simp
  have rng: "\<forall>i<length sl. ds ! i < length (sl ! i)" using Cons.prems(2) ix by auto
  have r: "rank (map length sl) ds < prod_list (map length sl)"
    using len rng by (intro rank_less) auto
  have "index_lists (s # sl) ! (d * prod_list (map length sl) + rank (map length sl) ds)
      = map ((#) ([0..<length s] ! d)) (index_lists sl) ! rank (map length sl) ds"
    unfolding index_lists_def list.map product_lists.simps
    using d r
    by (intro nth_concat_uniform) (simp_all add: length_product_lists_prod comp_def)
  also have "\<dots> = d # ds"
    using d r Cons.IH [OF len rng] by (simp add: length_index_lists)
  finally show ?case using ix by simp
qed


lemma loop_inv_nextIndex: "loop_inv ix sl \<Longrightarrow> loop_inv (nextIndex ix sl) sl"
  unfolding loop_inv_def nextIndex_def
  by (auto intro!: next_from_inrange)

lemma rank_ge_head:
  "ix \<noteq> [] \<Longrightarrow> ns \<noteq> [] \<Longrightarrow> ix ! 0 * prod_list (tl ns) \<le> rank ns ix"
  by (cases ix; cases ns) simp_all

lemma combinations_loop_eq:
  "sl \<noteq> [] \<Longrightarrow> loop_inv ix sl \<Longrightarrow>
   combinations_loop lower ix sl out
     = Inr (out @ map (\<lambda>i. combine lower (picked 0 i sl))
                       (drop (rank (map length sl) ix) (index_lists sl)))"
proof (induction lower ix sl out rule: combinations_loop.induct)
  case (1 lower ix sl out)
  let ?ns = "map length sl"
  from "1.prems" have len: "length ix = length sl" and ne: "ix \<noteq> []" "sl \<noteq> []"
    by (auto simp: loop_inv_def)
  show ?case
  proof (cases "ix ! 0 < length (sl ! 0)")
    case True
    have rng: "\<forall>i<length sl. ix ! i < length (sl ! i)"
      using True "1.prems" by (metis loop_inv_def neq0_conv)
    then have inr: "inrange 0 ix sl" using len by (simp add: inrange_iff)
    then have c: "combination lower ix sl = Inr (combine lower (picked 0 ix sl))"
      by (simp add: combination_eq)
    have tk: "take (length ix) sl = sl" using len by simp
    have r1: "rank ?ns (nextIndex ix sl) = rank ?ns ix + 1"
      and r2: "rank ?ns ix < prod_list ?ns"
      using nextIndex_rank [OF ne(1) inr] by (simp_all add: tk)
    have "combinations_loop lower ix sl out
        = combinations_loop lower (nextIndex ix sl) sl (out @ [combine lower (picked 0 ix sl)])"
      using ne True c by (subst combinations_loop.simps) simp
    also have "\<dots> = Inr ((out @ [combine lower (picked 0 ix sl)]) @
        map (\<lambda>i. combine lower (picked 0 i sl)) (drop (rank ?ns (nextIndex ix sl)) (index_lists sl)))"
      using ne True c "1.prems" by (intro "1.IH") (simp_all add: loop_inv_nextIndex)
    finally have eq: "combinations_loop lower ix sl out
        = Inr ((out @ [combine lower (picked 0 ix sl)]) @
            map (\<lambda>i. combine lower (picked 0 i sl))
              (drop (rank ?ns (nextIndex ix sl)) (index_lists sl)))" .
    have "drop (rank ?ns ix) (index_lists sl) = ix # drop (rank ?ns (nextIndex ix sl)) (index_lists sl)"
      using r1 r2 index_lists_nth [OF len rng]
      by (metis Cons_nth_drop_Suc Suc_eq_plus1 length_index_lists)
    then show ?thesis using eq by simp
  next
    case False
    have "prod_list ?ns = length (sl ! 0) * prod_list (tl ?ns)"
      using ne by (cases sl) simp_all
    also have "\<dots> \<le> ix ! 0 * prod_list (tl ?ns)"
      using False by (intro mult_le_mono1) simp
    also have "\<dots> \<le> rank ?ns ix" using ne by (intro rank_ge_head) simp_all
    finally have "drop (rank ?ns ix) (index_lists sl) = []"
      by (simp add: length_index_lists)
    then show ?thesis using ne False by (subst combinations_loop.simps) simp
  qed
qed

lemma picked_index_lists_gen:
  "map (\<lambda>i. picked (length pre) i (pre @ rest)) (index_lists rest) = product_lists rest"
proof (induction rest arbitrary: pre)
  case Nil
  then show ?case by (simp add: index_lists_def)
next
  case (Cons s rest)
  have IH: "map (\<lambda>t. picked (Suc (length pre)) t (pre @ s # rest)) (index_lists rest)
      = product_lists rest"
    using Cons.IH [of "pre @ [s]"] by simp
  have "map (\<lambda>i. picked (length pre) i (pre @ s # rest)) (index_lists (s # rest))
      = concat (map (\<lambda>k. map (\<lambda>t. s ! k # picked (Suc (length pre)) t (pre @ s # rest))
                             (index_lists rest)) [0..<length s])"
    by (simp add: index_lists_def map_concat comp_def)
  also have "\<dots> = concat (map (\<lambda>k. map ((#) (s ! k)) (product_lists rest)) [0..<length s])"
    by (simp flip: IH add: comp_def)
  also have "\<dots> = concat (map (\<lambda>x. map ((#) x) (product_lists rest)) (map ((!) s) [0..<length s]))"
    by (simp add: comp_def)
  also have "\<dots> = product_lists (s # rest)"
    by (simp only: map_nth product_lists.simps)
  finally show ?case .
qed

lemma picked_index_lists:
  "map (\<lambda>i. picked 0 i sl) (index_lists sl) = product_lists sl"
  using picked_index_lists_gen [of "[]" sl] by simp

lemma rank_replicate_0 [simp]: "rank ns (replicate (length ns) 0) = 0"
  by (induction ns) simp_all

lemma combinations_loop_all_nonempty:
  assumes "sl \<noteq> []" and "\<forall>s\<in>set sl. s \<noteq> []"
  shows "combinations_loop lower (replicate (length sl) 0) sl []
           = Inr (map (combine lower) (product_lists sl))"
proof -
  have "loop_inv (replicate (length sl) 0) sl"
    using assms(2) by (simp add: loop_inv_def)
  from combinations_loop_eq [OF assms(1) this, of lower "[]"]
  have "combinations_loop lower (replicate (length sl) 0) sl []
      = Inr (map (\<lambda>i. combine lower (picked 0 i sl)) (index_lists sl))"
    using rank_replicate_0 [of "map length sl"] by simp
  also have "map (\<lambda>i. combine lower (picked 0 i sl)) (index_lists sl)
      = map (combine lower) (map (\<lambda>i. picked 0 i sl) (index_lists sl))"
    by simp
  finally show ?thesis by (simp only: picked_index_lists)
qed

lemma combinations_loop_Nil:
  "combinations_loop lower [] sl out = Inl IndexOutOfRange"
  by (subst combinations_loop.simps) simp




lemma optionData_of_empty_iff:
  "[] \<in> set (optionData_of opts) \<longleftrightarrow> (\<exists>opt\<in>set opts. po_Values opt = [])"
  by (auto simp: optionData_of_def)

lemma generate_all_nonempty:
  assumes "opts \<noteq> []" and "\<forall>opt\<in>set opts. po_Values opt \<noteq> []"
  shows "generateCartesianProductForOptions lower opts
           = Inr (map (combine lower) (product_lists (optionData_of opts)))"
proof -
  have "optionData_of opts \<noteq> []" using assms(1) by (simp add: optionData_of_def)
  moreover have "\<forall>s\<in>set (optionData_of opts). s \<noteq> []"
    using assms(2) optionData_of_empty_iff [of opts] by auto
  ultimately show ?thesis
    by (simp add: generateCartesianProductForOptions_def Let_def combinations_loop_all_nonempty)
qed

lemma generate_Nil:
  "generateCartesianProductForOptions lower [] = Inl IndexOutOfRange"
  by (simp add: generateCartesianProductForOptions_def optionData_of_def combinations_loop_Nil)







section \<open>Properties of the store and of the creation handler\<close>

lemma all_ok_simps [simp]:
  "all_ok []" "all_ok (x # xs) \<longleftrightarrow> snd x = None \<and> all_ok xs"
  "all_ok (xs @ ys) \<longleftrightarrow> all_ok xs \<and> all_ok ys"
  by (auto simp: all_ok_def)

lemma tx_run_refl: "tx_run K db db None"
  by (simp add: tx_run_def)

lemma tx_run_trans:
  assumes "tx_run K db db1 None" and "tx_run K db1 db2 err"
  shows "tx_run K db db2 err"
proof -
  from assms(1) obtain n1 where n1: "history db1 = history db @ n1" "\<forall>x\<in>set n1. K (fst x)" "all_ok n1"
    and f1: "committed db1 = committed db" "pending db1 = None \<longleftrightarrow> pending db = None"
    by (auto simp: tx_run_def)
  from assms(2) obtain n2 where n2: "history db2 = history db1 @ n2" "\<forall>x\<in>set n2. K (fst x)"
    "case err of None \<Rightarrow> all_ok n2 | Some e \<Rightarrow> n2 \<noteq> [] \<and> snd (last n2) = Some e \<and> all_ok (butlast n2)"
    and f2: "committed db2 = committed db1" "pending db2 = None \<longleftrightarrow> pending db1 = None"
    by (auto simp: tx_run_def)
  have h: "history db2 = history db @ (n1 @ n2)" using n1 n2 by simp
  have k: "\<forall>x\<in>set (n1 @ n2). K (fst x)" using n1 n2 by auto
  have e: "case err of None \<Rightarrow> all_ok (n1 @ n2)
      | Some e \<Rightarrow> n1 @ n2 \<noteq> [] \<and> snd (last (n1 @ n2)) = Some e \<and> all_ok (butlast (n1 @ n2))"
    using n1(3) n2(3) by (cases err) (auto simp: butlast_append)
  show ?thesis
    unfolding tx_run_def
  proof (intro conjI exI [of _ "n1 @ n2"])
    show "committed db2 = committed db" using f1 f2 by simp
    show "(pending db2 = None) = (pending db = None)" using f1 f2 by simp
  qed (rule h k e)+
qed

lemma tx_run_mono: "tx_run K db db' err \<Longrightarrow> (\<And>c. K c \<Longrightarrow> K' c) \<Longrightarrow> tx_run K' db db' err"
  unfolding tx_run_def by blast

lemma err_of_simps [simp]: "err_of (Inl e) = Some e" "err_of (Inr x) = None"
  by (simp_all add: err_of_def)

lemma insert_row_tx_run:
  assumes "insert_row env c ins TX db = (res, db')"
  shows "tx_run (\<lambda>c'. c' = c) db db' (err_of res)"
  using assms
  by (auto simp: insert_row_def tx_run_def record_call_def write_tables_def Let_def
      split: option.splits)

lemma CreateProductRoot_tx_run:
  "CreateProductRoot env TX r db = (res, db') \<Longrightarrow>
   tx_run (\<lambda>c. c = Call_CreateProductRoot r) db db' (err_of res)"
  unfolding CreateProductRoot_def by (rule insert_row_tx_run)

lemma CreateProductOption_tx_run:
  "CreateProductOption env TX opt db = (res, db') \<Longrightarrow>
   tx_run (\<lambda>c. c = Call_CreateProductOption opt) db db' (err_of res)"
  unfolding CreateProductOption_def by (rule insert_row_tx_run)

lemma CreateProductOptionValue_tx_run:
  "CreateProductOptionValue env TX v db = (res, db') \<Longrightarrow>
   tx_run (\<lambda>c. c = Call_CreateProductOptionValue v) db db' (err_of res)"
  unfolding CreateProductOptionValue_def by (rule insert_row_tx_run)

lemma CreateProduct_tx_run:
  assumes "CreateProduct env TX p db = (res, db')"
  shows "tx_run (\<lambda>c. c = Call_CreateProduct p) db db' (err_of res)"
proof -
  obtain r0 where r0: "insert_row env (Call_CreateProduct p)
             (\<lambda>i t tb. tb\<lparr>products := products tb @ [p\<lparr>p_ID := i, p_CreatedOn := t\<rparr>]\<rparr>) TX db = (r0, db')"
    and e: "err_of res = err_of r0"
    using assms by (auto simp: CreateProduct_def split: prod.splits sum.splits)
  from insert_row_tx_run [OF r0] e show ?thesis by simp
qed

lemma CreateBridges_tx_run:
  assumes "CreateMultipleProductVariantBridgesForProductID env TX i vids db = (err, db')"
  shows "tx_run (\<lambda>c. c = Call_CreateMultipleProductVariantBridgesForProductID i vids) db db' err"
  using assms
  by (auto simp: CreateMultipleProductVariantBridgesForProductID_def tx_run_def record_call_def
      write_tables_def Let_def split: prod.splits option.splits)

lemma create_values_tx_run:
  "create_values env vs opt db = (res, db') \<Longrightarrow> tx_run option_call db db' (err_of res)"
proof (induction vs arbitrary: opt db)
  case Nil
  then show ?case by (auto simp: tx_run_refl)
next
  case (Cons v vs)
  let ?nv = "\<lparr>ov_ID = 0, ov_ProductOptionID = po_ID opt, ov_Value = v,
             ov_CreatedOn = 0, ov_ArchivedOn = None\<rparr>"
  obtain r1 db1 where s1: "CreateProductOptionValue env TX ?nv db = (r1, db1)"
    by (cases "CreateProductOptionValue env TX ?nv db")
  have t1: "tx_run option_call db db1 (err_of r1)"
    using CreateProductOptionValue_tx_run [OF s1]
    by (rule tx_run_mono) (auto simp: option_call_def)
  show ?case
  proof (cases r1)
    case (Inl e)
    then show ?thesis using Cons.prems s1 t1 by (auto simp add: Let_def)
  next
    case (Inr a)
    then obtain i t where a: "r1 = Inr (i, t)" by (cases a) auto
    have "tx_run option_call db1 db' (err_of res)"
      using Cons.prems s1 a by (intro Cons.IH) (simp add: Let_def)
    with t1 a show ?thesis by (auto intro: tx_run_trans)
  qed
qed

lemma createProductOptionAndValues_tx_run:
  assumes "createProductOptionAndValuesInDBFromInput env inp rid db = (res, db')"
  shows "tx_run option_call db db' (err_of res)"
proof -
  let ?o = "\<lparr>po_ID = 0, po_Name = in_Name inp, po_ProductRootID = rid, po_Values = [],
             po_CreatedOn = 0, po_ArchivedOn = None\<rparr>"
  obtain r1 db1 where s1: "CreateProductOption env TX ?o db = (r1, db1)"
    by (cases "CreateProductOption env TX ?o db")
  have t1: "tx_run option_call db db1 (err_of r1)"
    using CreateProductOption_tx_run [OF s1]
    by (rule tx_run_mono) (auto simp: option_call_def)
  show ?thesis
  proof (cases r1)
    case (Inl e)
    then show ?thesis using assms s1 t1
      by (auto simp add: createProductOptionAndValuesInDBFromInput_def Let_def)
  next
    case (Inr a)
    then obtain i t where a: "r1 = Inr (i, t)" by (cases a) auto
    have "create_values env (in_Values inp) (?o\<lparr>po_ID := i, po_CreatedOn := t\<rparr>) db1 = (res, db')"
      using assms s1 a by (simp add: createProductOptionAndValuesInDBFromInput_def Let_def)
    from create_values_tx_run [OF this] t1 a show ?thesis by (auto intro: tx_run_trans)
  qed
qed

lemma create_options_tx_run:
  "create_options env inps root db = (res, db') \<Longrightarrow> tx_run option_call db db' (err_of res)"
proof (induction inps arbitrary: root db)
  case Nil
  then show ?case by (auto simp: tx_run_refl)
next
  case (Cons inp inps)
  obtain r1 db1 where s1: "createProductOptionAndValuesInDBFromInput env inp (r_ID root) db = (r1, db1)"
    by (cases "createProductOptionAndValuesInDBFromInput env inp (r_ID root) db")
  note t1 = createProductOptionAndValues_tx_run [OF s1]
  show ?case
  proof (cases r1)
    case (Inl e)
    then show ?thesis using Cons.prems s1 t1 by auto
  next
    case (Inr opt)
    have "tx_run option_call db1 db' (err_of res)"
      using Cons.prems s1 Inr by (intro Cons.IH) simp
    with t1 Inr show ?thesis by (auto intro: tx_run_trans)
  qed
qed

lemma product_call_Cons: "product_call r np combos c \<Longrightarrow> product_call r np (option # combos) c"
  by (auto simp: product_call_def)

lemma create_products_tx_run:
  "create_products env r np combos created db = (res, db') \<Longrightarrow>
   tx_run (product_call r np combos) db db' (err_of res)"
proof (induction combos arbitrary: created db)
  case Nil
  then show ?case by (auto simp: tx_run_refl)
next
  case (Cons option combos)
  let ?K = "product_call r np (option # combos)"
  let ?p = "variant r np option"
  obtain r1 db1 where s1: "CreateProduct env TX ?p db = (r1, db1)"
    by (cases "CreateProduct env TX ?p db")
  have t1: "tx_run ?K db db1 (err_of r1)"
    using CreateProduct_tx_run [OF s1]
    by (rule tx_run_mono) (auto simp: product_call_def)
  show ?case
  proof (cases r1)
    case (Inl e)
    then show ?thesis using Cons.prems s1 t1 by (auto simp add: Let_def)
  next
    case (Inr a)
    then obtain i c av where a: "r1 = Inr (i, c, av)" by (cases a) auto
    obtain e2 db2 where s2: "CreateMultipleProductVariantBridgesForProductID env TX i (IDs option) db1 = (e2, db2)"
      by (cases "CreateMultipleProductVariantBridgesForProductID env TX i (IDs option) db1")
    have t2: "tx_run ?K db1 db2 e2"
      using CreateBridges_tx_run [OF s2]
      by (rule tx_run_mono) (auto simp: product_call_def)
    from t1 a t2 have t12: "tx_run ?K db db2 e2"
      by (auto intro: tx_run_trans)
    show ?thesis
    proof (cases e2)
      case None
      have "tx_run (product_call r np combos) db2 db' (err_of res)"
        using Cons.prems s1 a s2 None by (intro Cons.IH) (simp add: Let_def)
      then have "tx_run ?K db2 db' (err_of res)"
        by (rule tx_run_mono) (rule product_call_Cons)
      with t12 None show ?thesis by (auto intro: tx_run_trans)
    next
      case (Some e)
      then show ?thesis using Cons.prems s1 a s2 t12 by (auto simp add: Let_def)
    qed
  qed
qed

lemma Exists_frame:
  assumes "ProductRootWithSKUPrefixExists env q sku db = (found, db0)"
  shows "history db0 = history db @ [(Call_ProductRootWithSKUPrefixExists sku, err_of found)]"
    and "committed db0 = committed db" and "pending db0 = pending db"
  using assms
  by (auto simp: ProductRootWithSKUPrefixExists_def record_call_def split: option.splits)

lemma Begin_frame:
  assumes "Begin env db = (e, db1)"
  shows "history db1 = history db @ [(Call_Begin, e)]"
    and "committed db1 = committed db"
    and "e = None \<Longrightarrow> pending db1 = Some (committed db)"
    and "e \<noteq> None \<Longrightarrow> pending db1 = pending db"
  using assms
  by (auto simp: Begin_def record_call_def split: option.splits)

lemma Rollback_frame:
  "history (Rollback env db) = history db @ [(Call_Rollback, fails env (length (history db)))]"
  "committed (Rollback env db) = committed db"
  "pending (Rollback env db) = None"
  by (simp_all add: Rollback_def record_call_def)

lemma Commit_frame:
  assumes "Commit env db = (e, db')"
  shows "history db' = history db @ [(Call_Commit, e)]"
    and "pending db' = None"
    and "e \<noteq> None \<Longrightarrow> committed db' = committed db"
    and "e = None \<Longrightarrow> committed db' = read_tables TX db"
  using assms
  by (auto simp: Commit_def record_call_def read_tables_def split: option.splits)

lemma Webhooks_frame:
  assumes "GetWebhooksByEventType env q ev db = (e, db')"
  shows "history db' = history db @ [(Call_GetWebhooksByEventType ev, e)]"
    and "pending db' = pending db" and "committed db' = committed db"
  using assms by (auto simp: GetWebhooksByEventType_def record_call_def)

lemma commit_and_respond_cases:
  assumes "commit_and_respond env root db = (out, db')"
  obtains (respond_commit_failed) e where
      "out = Inr (InternalIssue ''close out transaction'')"
      "history db' = history db @ [(Call_Commit, Some e)]"
      "committed db' = committed db" "pending db' = None"
  | (respond_committed) we where
      "out = (if we \<noteq> None \<and> we \<noteq> Some ErrNoRows
              then Inr (InternalIssue ''retrieve webhooks from database'')
              else Inr (StatusCreated root))"
      "history db' = history db @ [(Call_Commit, None), (Call_GetWebhooksByEventType ''product_created'', we)]"
      "committed db' = read_tables TX db" "pending db' = None"
proof -
  obtain ce db1 where c: "Commit env db = (ce, db1)" by (cases "Commit env db")
  note cf = Commit_frame [OF c]
  show thesis
  proof (cases ce)
    case (Some e)
    then show ?thesis
      using assms c cf by (intro respond_commit_failed [of e]) (auto simp: commit_and_respond_def)
  next
    case None
    obtain we db2 where w: "GetWebhooksByEventType env DB ''product_created'' db1 = (we, db2)"
      by (cases "GetWebhooksByEventType env DB ''product_created'' db1")
    note wf = Webhooks_frame [OF w]
    show ?thesis
      using assms c None w cf wf
      by (intro respond_committed [of we]) (auto simp: commit_and_respond_def split: if_splits)
  qed
qed

lemma createProductsInDBFromOptionRows_cases:
  assumes "createProductsInDBFromOptionRows env r np db = (res, db')"
  obtains (panics) p where "res = Inl (Panics p)" "db' = db"
      "generateCartesianProductForOptions (ToLower env) (r_Options r) = Inl p"
  | (fails) e combos where "res = Inl (Fails e)"
      "generateCartesianProductForOptions (ToLower env) (r_Options r) = Inr combos"
      "tx_run (product_call r np combos) db db' (Some e)"
  | (created) ps combos where "res = Inr ps"
      "generateCartesianProductForOptions (ToLower env) (r_Options r) = Inr combos"
      "create_products env r np combos [] db = (Inr ps, db')"
      "tx_run (product_call r np combos) db db' None"
proof (cases "generateCartesianProductForOptions (ToLower env) (r_Options r)")
  case (Inl p)
  then show ?thesis using assms by (intro panics [of p]) (auto simp: createProductsInDBFromOptionRows_def)
next
  case (Inr combos)
  obtain r1 db1 where s: "create_products env r np combos [] db = (r1, db1)"
    by (cases "create_products env r np combos [] db")
  note t = create_products_tx_run [OF s]
  show ?thesis
  proof (cases r1)
    case (Inl e)
    then show ?thesis using assms Inr s t
      by (intro fails [of e combos]) (auto simp: createProductsInDBFromOptionRows_def)
  next
    case r: (Inr ps)
    then show ?thesis using assms Inr s t
      by (intro created [of ps combos]) (auto simp: createProductsInDBFromOptionRows_def)
  qed
qed

lemma clamp_uint32: "word_of_nat (max (unat q) 1) = max q (1 :: uint32)"
  by (cases "q = 0") (auto simp: max_def word_le_nat_alt unat_eq_zero)

lemma option_call_tx_call: "option_call c \<Longrightarrow> tx_call inp c"
  by (auto simp: option_call_def tx_call_def)

lemma product_call_tx_call:
  "p_QuantityPerPackage np = max (pci_QuantityPerPackage inp) 1 \<Longrightarrow> product_call r np combos c \<Longrightarrow>
   tx_call inp c"
  by (auto simp: product_call_def tx_call_def variant_def)

lemma creation_in_transaction:
  assumes run: "buildProductCreationHandler env (Inr inp) db = (out, db')"
    and valid: "restrictedStringIsValid env (pci_SKU inp)"
    and s0: "ProductRootWithSKUPrefixExists env DB (pci_SKU inp) db = (Inr False, db0)"
    and s1: "Begin env db0 = (None, db1)"
  obtains (tx_rolled_back) dbx e msg where
      "tx_run (tx_call inp) db1 dbx (Some e)" "db' = Rollback env dbx" "out = Inr (InternalIssue msg)"
  | (tx_panicked) p where "tx_run (tx_call inp) db1 db' None" "out = Inl p"
  | (tx_to_commit) dbx root where
      "tx_run (tx_call inp) db1 dbx None" "commit_and_respond env root dbx = (out, db')"
proof -
  let ?np0 = "newProductFromCreationInput inp"
  let ?root0 = "createProductRootFromProduct ?np0"
  let ?np = "?np0\<lparr>p_QuantityPerPackage := word_of_nat (max (unat (p_QuantityPerPackage ?np0)) 1)\<rparr>"
  have qpp: "p_QuantityPerPackage ?np = max (pci_QuantityPerPackage inp) 1"
    using clamp_uint32 [of "pci_QuantityPerPackage inp"]
    by (simp add: newProductFromCreationInput_def)
  obtain r2 db2 where s2: "CreateProductRoot env TX ?root0 db1 = (r2, db2)"
    by (cases "CreateProductRoot env TX ?root0 db1")
  have t2: "tx_run (tx_call inp) db1 db2 (err_of r2)"
    using CreateProductRoot_tx_run [OF s2] by (rule tx_run_mono) (simp add: tx_call_def)
  show thesis
  proof (cases r2)
    case (Inl e)
    have "db' = Rollback env db2" "out = Inr (InternalIssue ''insert product options and values in database'')"
      using run valid s0 s1 s2 Inl by (auto simp: buildProductCreationHandler_def Let_def)
    then show ?thesis using t2 Inl by (intro tx_rolled_back [of db2 e]) auto
  next
    case (Inr a)
    then obtain i created where a: "r2 = Inr (i, created)" by (cases a) auto
    let ?root = "?root0\<lparr>r_ID := i, r_CreatedOn := created\<rparr>"
    obtain r3 db3 where s3: "create_options env (pci_Options inp) ?root db2 = (r3, db3)"
      by (cases "create_options env (pci_Options inp) ?root db2")
    have t3: "tx_run (tx_call inp) db2 db3 (err_of r3)"
      using create_options_tx_run [OF s3] by (rule tx_run_mono) (rule option_call_tx_call)
    from t2 a t3 have t23: "tx_run (tx_call inp) db1 db3 (err_of r3)"
      by (auto intro: tx_run_trans)
    show ?thesis
    proof (cases r3)
      case (Inl e)
      have "db' = Rollback env db3" "out = Inr (InternalIssue ''insert product options and values in database'')"
        using run valid s0 s1 s2 a s3 Inl by (auto simp: buildProductCreationHandler_def Let_def)
      then show ?thesis using t23 Inl by (intro tx_rolled_back [of db3 e]) auto
    next
      case r3: (Inr root3)
      show ?thesis
      proof (cases "pci_Options inp = []")
        case True
        let ?p = "?np\<lparr>p_ProductRootID := r_ID root3\<rparr>"
        obtain r4 db4 where s4: "CreateProduct env TX ?p db3 = (r4, db4)"
          by (cases "CreateProduct env TX ?p db3")
        have k: "tx_call inp (Call_CreateProduct ?p)"
          using qpp by (simp add: tx_call_def)
        have "tx_run (tx_call inp) db3 db4 (err_of r4)"
          using CreateProduct_tx_run [OF s4] by (rule tx_run_mono) (clarify, rule k)
        with t23 r3 have t4: "tx_run (tx_call inp) db1 db4 (err_of r4)"
          by (auto intro: tx_run_trans)
        show ?thesis
        proof (cases r4)
          case (Inl e)
          have "db' = Rollback env db4" "out = Inr (InternalIssue ''insert product in database'')"
            using run valid s0 s1 s2 a s3 r3 True s4 Inl
            by (auto simp: buildProductCreationHandler_def Let_def)
          then show ?thesis using t4 Inl by (intro tx_rolled_back [of db4 e]) auto
        next
          case (Inr b)
          then obtain pid pcreated available where b: "r4 = Inr (pid, pcreated, available)"
            by (cases b) auto
          have "commit_and_respond env
                  (root3\<lparr>r_Options := [],
                     r_Products := [?p\<lparr>p_ID := pid, p_CreatedOn := pcreated,
                                      p_AvailableOn := available\<rparr>]\<rparr>) db4 = (out, db')"
            using run valid s0 s1 s2 a s3 r3 True s4 b
            by (auto simp: buildProductCreationHandler_def Let_def)
          then show ?thesis using t4 b by (intro tx_to_commit [of db4]) auto
        qed
      next
        case False
        obtain r4 db4 where s4: "createProductsInDBFromOptionRows env root3 ?np db3 = (r4, db4)"
          by (cases "createProductsInDBFromOptionRows env root3 ?np db3")
        from s4 show ?thesis
        proof (cases rule: createProductsInDBFromOptionRows_cases)
          case (panics p)
          have "out = Inl p" "db' = db3"
            using run valid s0 s1 s2 a s3 r3 False s4 panics
            by (auto simp: buildProductCreationHandler_def Let_def)
          then show ?thesis using t23 r3 by (intro tx_panicked [of p]) auto
        next
          case (fails e combos)
          have "db' = Rollback env db4" "out = Inr (InternalIssue ''insert products in database'')"
            using run valid s0 s1 s2 a s3 r3 False s4 fails
            by (auto simp: buildProductCreationHandler_def Let_def)
          moreover have "tx_run (tx_call inp) db3 db4 (Some e)"
            using fails(3) by (rule tx_run_mono) (rule product_call_tx_call [OF qpp])
          with t23 r3 have "tx_run (tx_call inp) db1 db4 (Some e)"
            by (auto intro: tx_run_trans)
          ultimately show ?thesis by (intro tx_rolled_back [of db4 e]) auto
        next
          case (created ps combos)
          have "commit_and_respond env (root3\<lparr>r_Products := ps\<rparr>) db4 = (out, db')"
            using run valid s0 s1 s2 a s3 r3 False s4 created
            by (auto simp: buildProductCreationHandler_def Let_def)
          moreover have "tx_run (tx_call inp) db3 db4 None"
            using created(4) by (rule tx_run_mono) (rule product_call_tx_call [OF qpp])
          with t23 r3 have "tx_run (tx_call inp) db1 db4 None"
            by (auto intro: tx_run_trans)
          ultimately show ?thesis by (intro tx_to_commit [of db4]) auto
        qed
      qed
    qed
  qed
qed

lemma calls_made_append: "history db' = history db @ new \<Longrightarrow> calls_made db db' = new"
  by (simp add: calls_made_def)

lemma tx_run_SomeE:
  assumes "tx_run K db db' (Some e)"
  obtains new where "history db' = history db @ new" "new \<noteq> []" "snd (last new) = Some e"
    "all_ok (butlast new)" "\<forall>x\<in>set new. K (fst x)" "committed db' = committed db"
    "pending db' = None \<longleftrightarrow> pending db = None"
  using assms unfolding tx_run_def by auto

lemma tx_run_NoneE:
  assumes "tx_run K db db' None"
  obtains new where "history db' = history db @ new" "all_ok new"
    "\<forall>x\<in>set new. K (fst x)" "committed db' = committed db"
    "pending db' = None \<longleftrightarrow> pending db = None"
  using assms unfolding tx_run_def by auto

lemma creation_handler_cases:
  assumes run: "buildProductCreationHandler env req db = (out, db')"
  obtains (rejected) m where
      "rejected_before_transaction env req db" "out = Inr (InvalidRequestBody m)"
      "committed db' = committed db" "pending db' = pending db"
      "\<exists>new. history db' = history db @ new \<and>
         (\<forall>x\<in>set new. \<exists>sku. fst x = Call_ProductRootWithSKUPrefixExists sku)"
  | (no_transaction) inp e where
      "\<not> rejected_before_transaction env req db" "req = Inr inp"
      "out = Inr (InternalIssue ''create new database transaction'')"
      "history db' = history db @
         [(Call_ProductRootWithSKUPrefixExists (pci_SKU inp), None), (Call_Begin, Some e)]"
      "committed db' = committed db" "pending db' = pending db"
  | (rolled_back) inp msg new e re where
      "\<not> rejected_before_transaction env req db" "req = Inr inp"
      "out = Inr (InternalIssue msg)"
      "history db' = history db @
         [(Call_ProductRootWithSKUPrefixExists (pci_SKU inp), None), (Call_Begin, None)] @ new @
         [(Call_Rollback, re)]"
      "new \<noteq> []" "snd (last new) = Some e" "all_ok (butlast new)"
      "\<forall>x\<in>set new. tx_call inp (fst x)"
      "committed db' = committed db" "pending db' = None"
  | (panicked) inp p new where
      "\<not> rejected_before_transaction env req db" "req = Inr inp" "out = Inl p"
      "history db' = history db @
         [(Call_ProductRootWithSKUPrefixExists (pci_SKU inp), None), (Call_Begin, None)] @ new"
      "all_ok new" "\<forall>x\<in>set new. tx_call inp (fst x)"
      "committed db' = committed db" "pending db' \<noteq> None"
  | (commit_failed) inp new e where
      "\<not> rejected_before_transaction env req db" "req = Inr inp"
      "out = Inr (InternalIssue ''close out transaction'')"
      "history db' = history db @
         [(Call_ProductRootWithSKUPrefixExists (pci_SKU inp), None), (Call_Begin, None)] @ new @
         [(Call_Commit, Some e)]"
      "all_ok new" "\<forall>x\<in>set new. tx_call inp (fst x)"
      "committed db' = committed db" "pending db' = None"
  | (committed) inp new we root where
      "\<not> rejected_before_transaction env req db" "req = Inr inp"
      "out = (if we \<noteq> None \<and> we \<noteq> Some ErrNoRows
              then Inr (InternalIssue ''retrieve webhooks from database'')
              else Inr (StatusCreated root))"
      "history db' = history db @
         [(Call_ProductRootWithSKUPrefixExists (pci_SKU inp), None), (Call_Begin, None)] @ new @
         [(Call_Commit, None), (Call_GetWebhooksByEventType ''product_created'', we)]"
      "all_ok new" "\<forall>x\<in>set new. tx_call inp (fst x)" "pending db' = None"
proof (cases req)
  case (Inl err)
  then show ?thesis using run
    by (intro rejected [where m=err])
      (auto simp: buildProductCreationHandler_def rejected_before_transaction_def)
next
  case (Inr inp)
  show ?thesis
  proof (cases "restrictedStringIsValid env (pci_SKU inp)")
    case False
    then show ?thesis using run Inr
      by (intro rejected)
        (auto simp: buildProductCreationHandler_def rejected_before_transaction_def)
  next
    case valid: True
    obtain found db0 where s0: "ProductRootWithSKUPrefixExists env DB (pci_SKU inp) db = (found, db0)"
      by (cases "ProductRootWithSKUPrefixExists env DB (pci_SKU inp) db")
    note f0 = Exists_frame [OF s0]
    show ?thesis
    proof (cases "found = Inr False")
      case False
      then show ?thesis using run Inr valid s0 f0
        by (intro rejected)
          (auto simp: buildProductCreationHandler_def rejected_before_transaction_def)
    next
      case True
      then have s0': "ProductRootWithSKUPrefixExists env DB (pci_SKU inp) db = (Inr False, db0)"
        using s0 by simp
      have h0: "history db0 = history db @ [(Call_ProductRootWithSKUPrefixExists (pci_SKU inp), None)]"
        using f0(1) True by simp
      have nrej: "\<not> rejected_before_transaction env req db"
        using Inr valid s0 True by (simp add: rejected_before_transaction_def)
      obtain be db1 where s1: "Begin env db0 = (be, db1)" by (cases "Begin env db0")
      note f1 = Begin_frame [OF s1]
      show ?thesis
      proof (cases be)
        case (Some e)
        have "out = Inr (InternalIssue ''create new database transaction'')" "db' = db1"
          using run Inr valid s0' s1 Some by (auto simp: buildProductCreationHandler_def)
        then show ?thesis using nrej Inr f0 f1 h0 Some
          by (intro no_transaction [where inp=inp and e=e]) auto
      next
        case None
        then have s1': "Begin env db0 = (None, db1)" using s1 by simp
        have h1: "history db1 = history db @
            [(Call_ProductRootWithSKUPrefixExists (pci_SKU inp), None), (Call_Begin, None)]"
          using f1(1) h0 None by simp
        have c1: "committed db1 = committed db" using f0 f1 by simp
        have p1: "pending db1 \<noteq> None" using f1(3) None by simp
        from run [unfolded Inr] valid s0' s1' show ?thesis
        proof (cases rule: creation_in_transaction)
          case (tx_rolled_back dbx e msg)
          from tx_rolled_back(1) obtain new where new: "history dbx = history db1 @ new" "new \<noteq> []"
            "snd (last new) = Some e" "all_ok (butlast new)" "\<forall>x\<in>set new. tx_call inp (fst x)"
            "committed dbx = committed db1"
            by (rule tx_run_SomeE)
          show ?thesis
          proof (rule rolled_back [where inp=inp and msg=msg and new=new and e=e and re="fails env (length (history dbx))"])
            show "history db' = history db @
              [(Call_ProductRootWithSKUPrefixExists (pci_SKU inp), None), (Call_Begin, None)] @ new @
              [(Call_Rollback, fails env (length (history dbx)))]"
              using tx_rolled_back(2) new(1) h1 by (simp add: Rollback_frame)
          qed (use nrej Inr tx_rolled_back new c1 in \<open>simp_all add: Rollback_frame\<close>)
        next
          case (tx_panicked p)
          from tx_panicked(1) obtain new where new: "history db' = history db1 @ new" "all_ok new"
            "\<forall>x\<in>set new. tx_call inp (fst x)" "committed db' = committed db1"
            "pending db' = None \<longleftrightarrow> pending db1 = None"
            by (rule tx_run_NoneE)
          show ?thesis
          proof (rule panicked [where inp=inp and p=p and new=new])
            show "history db' = history db @
              [(Call_ProductRootWithSKUPrefixExists (pci_SKU inp), None), (Call_Begin, None)] @ new"
              using new(1) h1 by simp
          qed (use nrej Inr tx_panicked new c1 p1 in simp_all)
        next
          case (tx_to_commit dbx root)
          from tx_to_commit(1) obtain new where new: "history dbx = history db1 @ new" "all_ok new"
            "\<forall>x\<in>set new. tx_call inp (fst x)" "committed dbx = committed db1"
            by (rule tx_run_NoneE)
          from tx_to_commit(2) show ?thesis
          proof (cases rule: commit_and_respond_cases)
            case (respond_commit_failed e)
            show ?thesis
            proof (rule commit_failed [where inp=inp and new=new and e=e])
              show "history db' = history db @
                [(Call_ProductRootWithSKUPrefixExists (pci_SKU inp), None), (Call_Begin, None)] @ new @
                [(Call_Commit, Some e)]"
                using respond_commit_failed(2) new(1) h1 by simp
            qed (use nrej Inr respond_commit_failed new c1 in simp_all)
          next
            case (respond_committed we)
            show ?thesis
            proof (rule committed [where inp=inp and we=we and root=root and new=new])
              show "history db' = history db @
                [(Call_ProductRootWithSKUPrefixExists (pci_SKU inp), None), (Call_Begin, None)] @ new @
                [(Call_Commit, None), (Call_GetWebhooksByEventType ''product_created'', we)]"
                using respond_committed(2) new(1) h1 by simp
            qed (use nrej Inr respond_committed new c1 in simp_all)
          qed
        qed
      qed
    qed
  qed
qed

lemma not_creation_simps [simp]:
  "\<not> is_creation (Call_ProductRootWithSKUPrefixExists sku)" "\<not> is_creation Call_Begin"
  "\<not> is_creation Call_Commit" "\<not> is_creation Call_Rollback"
  "\<not> is_creation (Call_GetWebhooksByEventType ev)"
  by simp_all

lemma all_ok_not_failed: "all_ok new \<Longrightarrow> (c, Some e) \<notin> set new"
  by (auto simp: all_ok_def)

lemma failed_creation_rolled_back:
  assumes run: "buildProductCreationHandler env req db = (out, db')"
    and failed: "(c, Some e) \<in> set (calls_made db db')"
    and kind: "is_creation c"
  shows "(\<exists>msg. out = Inr (InternalIssue msg)) \<and> fst (last (history db')) = Call_Rollback \<and>
         committed db' = committed db \<and> pending db' = None"
  using run
proof (cases rule: creation_handler_cases)
  case (rejected m)
  then obtain new where "history db' = history db @ new"
    "\<forall>x\<in>set new. \<exists>sku. fst x = Call_ProductRootWithSKUPrefixExists sku" by blast
  then show ?thesis using failed kind by (fastforce simp: calls_made_append)
next
  case (no_transaction inp e')
  then show ?thesis using failed kind by (auto simp: calls_made_append)
next
  case (rolled_back inp msg new e' re)
  then show ?thesis by simp
next
  case (panicked inp p new)
  then show ?thesis using failed kind all_ok_not_failed [of new c e]
    by (auto simp: calls_made_append)
next
  case (commit_failed inp new e')
  then show ?thesis using failed kind all_ok_not_failed [of new c e]
    by (auto simp: calls_made_append)
next
  case (committed inp new we root)
  then show ?thesis using failed kind all_ok_not_failed [of new c e]
    by (auto simp: calls_made_append)
qed

lemma failed_commit_discards:
  assumes run: "buildProductCreationHandler env req db = (out, db')"
    and failed: "(Call_Commit, Some e) \<in> set (calls_made db db')"
  shows "(\<exists>msg. out = Inr (InternalIssue msg)) \<and> committed db' = committed db \<and> pending db' = None"
  using run
proof (cases rule: creation_handler_cases)
  case (rejected m)
  then obtain new where "history db' = history db @ new"
    "\<forall>x\<in>set new. \<exists>sku. fst x = Call_ProductRootWithSKUPrefixExists sku" by blast
  then show ?thesis using failed by (fastforce simp: calls_made_append)
next
  case (no_transaction inp e')
  then show ?thesis using failed by (auto simp: calls_made_append)
next
  case (rolled_back inp msg new e' re)
  then show ?thesis by simp
next
  case (panicked inp p new)
  then have "\<forall>x\<in>set new. is_creation (fst x)" by (simp add: tx_call_def)
  then show ?thesis using failed panicked by (fastforce simp: calls_made_append)
next
  case (commit_failed inp new e')
  then show ?thesis by simp
next
  case (committed inp new we root)
  then have "\<forall>x\<in>set new. is_creation (fst x)" by (simp add: tx_call_def)
  then show ?thesis using failed committed by (fastforce simp: calls_made_append)
qed

lemma creation_calls_of_run:
  assumes run: "buildProductCreationHandler env (Inr inp) db = (out, db')"
    and call: "(c, e) \<in> set (calls_made db db')" and kind: "is_creation c"
  shows "tx_call inp c"
  using run
proof (cases rule: creation_handler_cases)
  case (rejected m)
  then obtain new where "history db' = history db @ new"
    "\<forall>x\<in>set new. \<exists>sku. fst x = Call_ProductRootWithSKUPrefixExists sku" by blast
  then show ?thesis using call kind by (fastforce simp: calls_made_append)
next
  case (no_transaction inp' e')
  then show ?thesis using call kind by (auto simp: calls_made_append)
next
  case (rolled_back inp' msg new e' re)
  then show ?thesis using call kind by (auto simp: calls_made_append)
next
  case (panicked inp' p new)
  then show ?thesis using call kind by (auto simp: calls_made_append)
next
  case (commit_failed inp' new e')
  then show ?thesis using call kind by (auto simp: calls_made_append)
next
  case (committed inp' new we root)
  then show ?thesis using call kind by (auto simp: calls_made_append)
qed

lemma rejected_iff:
  assumes run: "buildProductCreationHandler env req db = (out, db')"
  shows "(\<exists>m. out = Inr (InvalidRequestBody m)) \<longleftrightarrow> rejected_before_transaction env req db"
  using run by (cases rule: creation_handler_cases) (auto split: if_splits)

lemma rejected_no_Begin:
  assumes run: "buildProductCreationHandler env req db = (out, db')"
    and rej: "rejected_before_transaction env req db"
  shows "Call_Begin \<notin> fst ` set (calls_made db db')"
  using run
proof (cases rule: creation_handler_cases)
  case (rejected m)
  then obtain new where "history db' = history db @ new"
    "\<forall>x\<in>set new. \<exists>sku. fst x = Call_ProductRootWithSKUPrefixExists sku" by blast
  then show ?thesis by (fastforce simp: calls_made_append)
qed (use rej in simp_all)

lemma accepted_Begin:
  assumes run: "buildProductCreationHandler env req db = (out, db')"
    and acc: "\<not> rejected_before_transaction env req db"
  shows "fst (calls_made db db' ! 1) = Call_Begin"
  using run
  by (cases rule: creation_handler_cases) (use acc in \<open>simp_all add: calls_made_append\<close>)

section \<open>The earlier creation handler\<close>

text \<open>
  The calls of the earlier creation handler inside its transaction, and what it does
  when one of them fails.
\<close>

lemma option_call_is_creation: "option_call c \<Longrightarrow> is_creation c"
  by (auto simp: option_call_def)

lemma create_products_earlier_tx_run:
  "create_products_earlier env r np combos created db = (res, db') \<Longrightarrow>
   tx_run is_creation db db' (err_of res)"
proof (induction combos arbitrary: created db)
  case Nil
  then show ?case by (auto simp: tx_run_refl)
next
  case (Cons option combos)
  let ?p = "variant r np option"
  obtain r1 db1 where s1: "CreateProduct env TX ?p db = (r1, db1)"
    by (cases "CreateProduct env TX ?p db")
  have t1: "tx_run is_creation db db1 (err_of r1)"
    using CreateProduct_tx_run [OF s1] by (rule tx_run_mono) simp
  show ?case
  proof (cases r1)
    case (Inl e)
    then show ?thesis using Cons.prems s1 t1 by (auto simp add: Let_def)
  next
    case (Inr a)
    then obtain i c av where a: "r1 = Inr (i, c, av)" by (cases a) auto
    obtain e2 db2 where s2: "CreateMultipleProductVariantBridgesForProductID env TX i (IDs option) db1 = (e2, db2)"
      by (cases "CreateMultipleProductVariantBridgesForProductID env TX i (IDs option) db1")
    have t2: "tx_run is_creation db1 db2 e2"
      using CreateBridges_tx_run [OF s2] by (rule tx_run_mono) simp
    from t1 a t2 have t12: "tx_run is_creation db db2 e2"
      by (auto intro: tx_run_trans)
    show ?thesis
    proof (cases e2)
      case None
      have "tx_run is_creation db2 db' (err_of res)"
        using Cons.prems s1 a s2 None by (intro Cons.IH) (simp add: Let_def)
      with t12 None show ?thesis by (auto intro: tx_run_trans)
    next
      case (Some e)
      then show ?thesis using Cons.prems s1 a s2 t12 by (auto simp add: Let_def)
    qed
  qed
qed

lemma createProductsInDBFromOptionRows_earlier_cases:
  assumes "createProductsInDBFromOptionRows_earlier env r np db = (res, db')"
  obtains (panics) p where "res = Inl (Panics p)" "db' = db"
  | (fails) e where "res = Inl (Fails e)" "tx_run is_creation db db' (Some e)"
  | (created) ps where "res = Inr ps" "tx_run is_creation db db' None"
proof (cases "generateCartesianProductForOptions (ToLower env) (r_Options r)")
  case (Inl p)
  then show ?thesis using assms
    by (intro panics [of p]) (auto simp: createProductsInDBFromOptionRows_earlier_def)
next
  case (Inr combos)
  obtain r1 db1 where s: "create_products_earlier env r np combos [] db = (r1, db1)"
    by (cases "create_products_earlier env r np combos [] db")
  note t = create_products_earlier_tx_run [OF s]
  show ?thesis
  proof (cases r1)
    case (Inl e)
    then show ?thesis using assms Inr s t
      by (intro fails [of e]) (auto simp: createProductsInDBFromOptionRows_earlier_def)
  next
    case r: (Inr ps)
    then show ?thesis using assms Inr s t
      by (intro created [of ps]) (auto simp: createProductsInDBFromOptionRows_earlier_def)
  qed
qed

lemma commit_and_respond_earlier_frame:
  assumes "commit_and_respond_earlier env root db = (out, db')"
  shows "\<exists>ce. history db' = history db @ [(Call_Commit, ce)]"
  using assms
  by (auto simp: commit_and_respond_earlier_def split: prod.splits option.splits
      dest: Commit_frame(1))

lemma creation_earlier_in_transaction:
  assumes run: "buildProductCreationHandler_earlier env (Inr inp) db = (out, db')"
    and valid: "restrictedStringIsValid env (pci_SKU inp)"
    and s0: "ProductRootWithSKUPrefixExists env DB (pci_SKU inp) db = (Inr False, db0)"
    and s1: "Begin env db0 = (None, db1)"
  obtains (tx_rolled_back) dbx e msg where
      "tx_run is_creation db1 dbx (Some e)" "db' = Rollback env dbx" "out = Inr (InternalIssue msg)"
  | (tx_panicked) p where "tx_run is_creation db1 db' None" "out = Inl p"
  | (tx_to_commit) dbx root where
      "tx_run is_creation db1 dbx None" "commit_and_respond_earlier env root dbx = (out, db')"
proof -
  let ?np = "newProductFromCreationInput inp"
  let ?root0 = "createProductRootFromProduct ?np"
  obtain r2 db2 where s2: "CreateProductRoot env TX ?root0 db1 = (r2, db2)"
    by (cases "CreateProductRoot env TX ?root0 db1")
  have t2: "tx_run is_creation db1 db2 (err_of r2)"
    using CreateProductRoot_tx_run [OF s2] by (rule tx_run_mono) simp
  show thesis
  proof (cases r2)
    case (Inl e)
    have "db' = Rollback env db2" "out = Inr (InternalIssue ''insert product options and values in database'')"
      using run valid s0 s1 s2 Inl by (auto simp: buildProductCreationHandler_earlier_def Let_def)
    then show ?thesis using t2 Inl by (intro tx_rolled_back [of db2 e]) auto
  next
    case (Inr a)
    then obtain i created where a: "r2 = Inr (i, created)" by (cases a) auto
    let ?root = "?root0\<lparr>r_ID := i, r_CreatedOn := created\<rparr>"
    obtain r3 db3 where s3: "create_options env (pci_Options inp) ?root db2 = (r3, db3)"
      by (cases "create_options env (pci_Options inp) ?root db2")
    have t3: "tx_run is_creation db2 db3 (err_of r3)"
      using create_options_tx_run [OF s3] by (rule tx_run_mono) (rule option_call_is_creation)
    from t2 a t3 have t23: "tx_run is_creation db1 db3 (err_of r3)"
      by (auto intro: tx_run_trans)
    show ?thesis
    proof (cases r3)
      case (Inl e)
      have "db' = Rollback env db3" "out = Inr (InternalIssue ''insert product options and values in database'')"
        using run valid s0 s1 s2 a s3 Inl by (auto simp: buildProductCreationHandler_earlier_def Let_def)
      then show ?thesis using t23 Inl by (intro tx_rolled_back [of db3 e]) auto
    next
      case r3: (Inr root3)
      show ?thesis
      proof (cases "pci_Options inp = []")
        case True
        let ?p = "?np\<lparr>p_ProductRootID := r_ID root3\<rparr>"
        obtain r4 db4 where s4: "CreateProduct env TX ?p db3 = (r4, db4)"
          by (cases "CreateProduct env TX ?p db3")
        have "tx_run is_creation db3 db4 (err_of r4)"
          using CreateProduct_tx_run [OF s4] by (rule tx_run_mono) simp
        with t23 r3 have t4: "tx_run is_creation db1 db4 (err_of r4)"
          by (auto intro: tx_run_trans)
        show ?thesis
        proof (cases r4)
          case (Inl e)
          have "db' = Rollback env db4" "out = Inr (InternalIssue ''insert product in database'')"
            using run valid s0 s1 s2 a s3 r3 True s4 Inl
            by (auto simp: buildProductCreationHandler_earlier_def Let_def)
          then show ?thesis using t4 Inl by (intro tx_rolled_back [of db4 e]) auto
        next
          case (Inr b)
          then obtain pid second third where b: "r4 = Inr (pid, second, third)"
            by (cases b) auto
          have "commit_and_respond_earlier env
                  (root3\<lparr>r_Options := [],
                     r_Products := [?p\<lparr>p_ID := pid, p_AvailableOn := second,
                                      p_CreatedOn := third\<rparr>]\<rparr>) db4 = (out, db')"
            using run valid s0 s1 s2 a s3 r3 True s4 b
            by (auto simp: buildProductCreationHandler_earlier_def Let_def)
          then show ?thesis using t4 b by (intro tx_to_commit [of db4]) auto
        qed
      next
        case False
        obtain r4 db4 where s4: "createProductsInDBFromOptionRows_earlier env root3 ?np db3 = (r4, db4)"
          by (cases "createProductsInDBFromOptionRows_earlier env root3 ?np db3")
        from s4 show ?thesis
        proof (cases rule: createProductsInDBFromOptionRows_earlier_cases)
          case (panics p)
          have "out = Inl p" "db' = db3"
            using run valid s0 s1 s2 a s3 r3 False s4 panics
            by (auto simp: buildProductCreationHandler_earlier_def Let_def)
          then show ?thesis using t23 r3 by (intro tx_panicked [of p]) auto
        next
          case (fails e)
          have "db' = Rollback env db4" "out = Inr (InternalIssue ''insert products in database'')"
            using run valid s0 s1 s2 a s3 r3 False s4 fails
            by (auto simp: buildProductCreationHandler_earlier_def Let_def)
          moreover from t23 r3 fails(2) have "tx_run is_creation db1 db4 (Some e)"
            by (auto intro: tx_run_trans)
          ultimately show ?thesis by (intro tx_rolled_back [of db4 e]) auto
        next
          case (created ps)
          have "commit_and_respond_earlier env (root3\<lparr>r_Products := ps\<rparr>) db4 = (out, db')"
            using run valid s0 s1 s2 a s3 r3 False s4 created
            by (auto simp: buildProductCreationHandler_earlier_def Let_def)
          moreover from t23 r3 created(2) have "tx_run is_creation db1 db4 None"
            by (auto intro: tx_run_trans)
          ultimately show ?thesis by (intro tx_to_commit [of db4]) auto
        qed
      qed
    qed
  qed
qed

lemma failed_creation_rolled_back_earlier:
  assumes run: "buildProductCreationHandler_earlier env req db = (out, db')"
    and failed: "(c, Some e) \<in> set (calls_made db db')"
    and kind: "is_creation c"
  shows "(\<exists>msg. out = Inr (InternalIssue msg)) \<and> fst (last (history db')) = Call_Rollback \<and>
         committed db' = committed db \<and> pending db' = None"
proof (cases req)
  case (Inl err)
  then have "db' = db" using run by (simp add: buildProductCreationHandler_earlier_def)
  then show ?thesis using failed by (simp add: calls_made_def)
next
  case (Inr inp)
  show ?thesis
  proof (cases "restrictedStringIsValid env (pci_SKU inp)")
    case False
    then have "db' = db" using run Inr by (simp add: buildProductCreationHandler_earlier_def)
    then show ?thesis using failed by (simp add: calls_made_def)
  next
    case valid: True
    obtain found db0 where s0: "ProductRootWithSKUPrefixExists env DB (pci_SKU inp) db = (found, db0)"
      by (cases "ProductRootWithSKUPrefixExists env DB (pci_SKU inp) db")
    note f0 = Exists_frame [OF s0]
    show ?thesis
    proof (cases "found = Inr False")
      case False
      then have "db' = db0" using run Inr valid s0
        by (auto simp: buildProductCreationHandler_earlier_def)
      then show ?thesis using failed kind f0 by (auto simp: calls_made_def)
    next
      case True
      then have s0': "ProductRootWithSKUPrefixExists env DB (pci_SKU inp) db = (Inr False, db0)"
        using s0 by simp
      have h0: "history db0 = history db @ [(Call_ProductRootWithSKUPrefixExists (pci_SKU inp), None)]"
        using f0(1) True by simp
      obtain be db1 where s1: "Begin env db0 = (be, db1)" by (cases "Begin env db0")
      note f1 = Begin_frame [OF s1]
      show ?thesis
      proof (cases be)
        case (Some e')
        have "db' = db1"
          using run Inr valid s0' s1 Some by (auto simp: buildProductCreationHandler_earlier_def)
        then show ?thesis using failed kind f1 h0 by (auto simp: calls_made_def)
      next
        case None
        then have s1': "Begin env db0 = (None, db1)" using s1 by simp
        have h1: "history db1 = history db @
            [(Call_ProductRootWithSKUPrefixExists (pci_SKU inp), None), (Call_Begin, None)]"
          using f1(1) h0 None by simp
        have c1: "committed db1 = committed db" using f0 f1 by simp
        from run [unfolded Inr] valid s0' s1' show ?thesis
        proof (cases rule: creation_earlier_in_transaction)
          case (tx_rolled_back dbx e' msg)
          from tx_rolled_back(1) have "committed dbx = committed db1" by (simp add: tx_run_def)
          then show ?thesis using tx_rolled_back c1 by (simp add: Rollback_frame)
        next
          case (tx_panicked p)
          from tx_panicked(1) obtain new where new: "history db' = history db1 @ new" "all_ok new"
            by (rule tx_run_NoneE)
          then show ?thesis using failed kind h1 all_ok_not_failed [of new c e]
            by (auto simp: calls_made_append)
        next
          case (tx_to_commit dbx root)
          from tx_to_commit(1) obtain new where new: "history dbx = history db1 @ new" "all_ok new"
            by (rule tx_run_NoneE)
          from commit_and_respond_earlier_frame [OF tx_to_commit(2)] obtain ce
            where "history db' = history dbx @ [(Call_Commit, ce)]" by blast
          then show ?thesis using failed kind new h1 all_ok_not_failed [of new c e]
            by (auto simp: calls_made_append)
        qed
      qed
    qed
  qed
qed

section \<open>Runs in which no call fails from outside\<close>

text \<open>
  When the environment lets no call fail, the calls that create the root, the options,
  their values and a variant succeed; the bridge statement is the one call that fails all
  the same.
\<close>

lemma insert_row_ok:
  assumes "all_succeed env" and "pending db = Some t"
  shows "\<exists>i tm db'. insert_row env c ins TX db = (Inr (i, tm), db') \<and> pending db' = Some (ins i tm t) \<and>
           committed db' = committed db"
  using assms
  by (simp add: insert_row_def all_succeed_def Let_def record_call_def write_tables_def)

lemma CreateProductRoot_ok:
  assumes "all_succeed env" and "pending db = Some t"
  shows "\<exists>i tm db' t'. CreateProductRoot env TX r db = (Inr (i, tm), db') \<and> pending db' = Some t' \<and>
           same_variants t t' \<and> committed db' = committed db"
  using insert_row_ok [OF assms] unfolding CreateProductRoot_def
  by (fastforce simp: same_variants_def)

lemma CreateProductOption_ok:
  assumes "all_succeed env" and "pending db = Some t"
  shows "\<exists>i tm db' t'. CreateProductOption env TX opt db = (Inr (i, tm), db') \<and> pending db' = Some t' \<and>
           same_variants t t' \<and> committed db' = committed db"
  using insert_row_ok [OF assms] unfolding CreateProductOption_def
  by (fastforce simp: same_variants_def)

lemma CreateProductOptionValue_ok:
  assumes "all_succeed env" and "pending db = Some t"
  shows "\<exists>i tm db' t'. CreateProductOptionValue env TX v db = (Inr (i, tm), db') \<and> pending db' = Some t' \<and>
           same_variants t t' \<and> committed db' = committed db"
  using insert_row_ok [OF assms] unfolding CreateProductOptionValue_def
  by (fastforce simp: same_variants_def)

lemma same_variants_refl [simp]: "same_variants t t"
  by (simp add: same_variants_def)

lemma same_variants_trans: "same_variants t t' \<Longrightarrow> same_variants t' t'' \<Longrightarrow> same_variants t t''"
  by (simp add: same_variants_def)

lemma create_values_ok:
  assumes "all_succeed env"
  shows "pending db = Some t \<Longrightarrow>
         \<exists>opt' db' t'. create_values env vs opt db = (Inr opt', db') \<and> pending db' = Some t' \<and>
           same_variants t t' \<and> committed db' = committed db \<and>
           length (po_Values opt') = length (po_Values opt) + length vs"
proof (induction vs arbitrary: opt db t)
  case Nil
  then show ?case by simp
next
  case (Cons v vs)
  let ?nv = "\<lparr>ov_ID = 0, ov_ProductOptionID = po_ID opt, ov_Value = v,
             ov_CreatedOn = 0, ov_ArchivedOn = None\<rparr>"
  from CreateProductOptionValue_ok [OF assms Cons.prems, of ?nv]
  obtain i tm db1 t1 where s1: "CreateProductOptionValue env TX ?nv db = (Inr (i, tm), db1)"
    and p1: "pending db1 = Some t1" and v1: "same_variants t t1" and c1: "committed db1 = committed db"
    by blast
  let ?opt1 = "opt\<lparr>po_Values := po_Values opt @ [?nv\<lparr>ov_ID := i, ov_CreatedOn := tm\<rparr>]\<rparr>"
  from Cons.IH [OF p1, of ?opt1]
  obtain opt' db' t' where s2: "create_values env vs ?opt1 db1 = (Inr opt', db')"
    and p2: "pending db' = Some t'" and v2: "same_variants t1 t'" and c2: "committed db' = committed db1"
    and l2: "length (po_Values opt') = length (po_Values ?opt1) + length vs"
    by blast
  have "create_values env (v # vs) opt db = (Inr opt', db')"
    using s1 s2 by (simp add: Let_def)
  then show ?case using p2 v1 v2 c1 c2 l2 by (auto intro: same_variants_trans)
qed

lemma createProductOptionAndValues_ok:
  assumes "all_succeed env" and "pending db = Some t"
  shows "\<exists>opt' db' t'. createProductOptionAndValuesInDBFromInput env inp rid db = (Inr opt', db') \<and>
           pending db' = Some t' \<and> same_variants t t' \<and> committed db' = committed db \<and>
           length (po_Values opt') = length (in_Values inp)"
proof -
  let ?o = "\<lparr>po_ID = 0, po_Name = in_Name inp, po_ProductRootID = rid, po_Values = [],
             po_CreatedOn = 0, po_ArchivedOn = None\<rparr>"
  from CreateProductOption_ok [OF assms, of ?o]
  obtain i tm db1 t1 where s1: "CreateProductOption env TX ?o db = (Inr (i, tm), db1)"
    and p1: "pending db1 = Some t1" and v1: "same_variants t t1" and c1: "committed db1 = committed db"
    by blast
  from create_values_ok [OF assms(1) p1, of "in_Values inp" "?o\<lparr>po_ID := i, po_CreatedOn := tm\<rparr>"]
  obtain opt' db' t' where s2: "create_values env (in_Values inp) (?o\<lparr>po_ID := i, po_CreatedOn := tm\<rparr>) db1 = (Inr opt', db')"
    and p2: "pending db' = Some t'" and v2: "same_variants t1 t'" and c2: "committed db' = committed db1"
    and l2: "length (po_Values opt') = length (in_Values inp)"
    by auto
  have "createProductOptionAndValuesInDBFromInput env inp rid db = (Inr opt', db')"
    using s1 s2 by (simp add: createProductOptionAndValuesInDBFromInput_def Let_def)
  then show ?thesis using p2 v1 v2 c1 c2 l2 by (auto intro: same_variants_trans)
qed

lemma create_options_ok:
  assumes "all_succeed env"
  shows "pending db = Some t \<Longrightarrow>
         \<exists>root' db' t'. create_options env inps root db = (Inr root', db') \<and> pending db' = Some t' \<and>
           same_variants t t' \<and> committed db' = committed db \<and>
           map (\<lambda>opt. length (po_Values opt)) (r_Options root')
             = map (\<lambda>opt. length (po_Values opt)) (r_Options root) @ map (\<lambda>i. length (in_Values i)) inps \<and>
           r_ID root' = r_ID root"
proof (induction inps arbitrary: root db t)
  case Nil
  then show ?case by simp
next
  case (Cons inp inps)
  from createProductOptionAndValues_ok [OF assms Cons.prems, of inp "r_ID root"]
  obtain opt db1 t1 where s1: "createProductOptionAndValuesInDBFromInput env inp (r_ID root) db = (Inr opt, db1)"
    and p1: "pending db1 = Some t1" and v1: "same_variants t t1" and c1: "committed db1 = committed db"
    and l1: "length (po_Values opt) = length (in_Values inp)"
    by blast
  let ?root1 = "root\<lparr>r_Options := r_Options root @ [opt]\<rparr>"
  from Cons.IH [OF p1, of ?root1]
  obtain root' db' t' where s2: "create_options env inps ?root1 db1 = (Inr root', db')"
    and p2: "pending db' = Some t'" and v2: "same_variants t1 t'" and c2: "committed db' = committed db1"
    and l2: "map (\<lambda>opt. length (po_Values opt)) (r_Options root')
             = map (\<lambda>opt. length (po_Values opt)) (r_Options ?root1) @ map (\<lambda>i. length (in_Values i)) inps"
    and i2: "r_ID root' = r_ID ?root1"
    by blast
  have "create_options env (inp # inps) root db = (Inr root', db')"
    using s1 s2 by simp
  then show ?case using p2 v1 v2 c1 c2 l1 l2 i2 by (auto intro: same_variants_trans)
qed

lemma CreateProduct_ok:
  assumes "all_succeed env" and "pending db = Some t"
  shows "\<exists>i tm av db' t'. CreateProduct env TX p db = (Inr (i, tm, av), db') \<and> pending db' = Some t' \<and>
           length (products t') = Suc (length (products t)) \<and>
           product_variant_bridge t' = product_variant_bridge t \<and> committed db' = committed db"
proof -
  from insert_row_ok [OF assms, of "Call_CreateProduct p"
      "\<lambda>i t tb. tb\<lparr>products := products tb @ [p\<lparr>p_ID := i, p_CreatedOn := t\<rparr>]\<rparr>"]
  obtain i tm db' where "insert_row env (Call_CreateProduct p)
      (\<lambda>i t tb. tb\<lparr>products := products tb @ [p\<lparr>p_ID := i, p_CreatedOn := t\<rparr>]\<rparr>) TX db
        = (Inr (i, tm), db')"
    "pending db' = Some (t\<lparr>products := products t @ [p\<lparr>p_ID := i, p_CreatedOn := tm\<rparr>]\<rparr>)"
    "committed db' = committed db"
    by blast
  then show ?thesis by (simp add: CreateProduct_def)
qed

text \<open>
  The statement that \<open>buildMultiProductVariantBridgeCreationQuery\<close> builds is rejected
  for every list of option value identifiers: its only row is empty or holds row
  constructors.
\<close>

lemma bridge_statement_rejected:
  "those (map (bridge_row (productID # vids))
            [map (\<lambda>ix. RowConstructor [1, ix + 2]) [0..<length vids]]) = None"
proof (cases vids)
  case Nil
  then show ?thesis by simp
next
  case (Cons v vs)
  have "[0..<length vids] = 0 # [Suc 0..<length vids]"
    using Cons by (intro upt_conv_Cons) simp
  then obtain ns rest
    where "map (\<lambda>ix. RowConstructor [1, ix + 2]) [0..<length vids] = RowConstructor ns # rest"
    by simp
  then show ?thesis by simp
qed

lemma CreateBridges_rejected:
  assumes "all_succeed env"
  shows "CreateMultipleProductVariantBridgesForProductID env TX pid vids db =
           (Some StatementRejected,
            record_call (Call_CreateMultipleProductVariantBridgesForProductID pid vids)
              (Some StatementRejected) db)"
  using assms bridge_statement_rejected [of pid vids]
  by (simp add: CreateMultipleProductVariantBridgesForProductID_def all_succeed_def Let_def
      buildMultiProductVariantBridgeCreationQuery_def)

lemma generate_count:
  assumes "opts \<noteq> []" and "\<forall>opt\<in>set opts. po_Values opt \<noteq> []"
  shows "\<exists>out. generateCartesianProductForOptions lower opts = Inr out \<and>
           length out = prod_list (map (\<lambda>opt. length (po_Values opt)) opts) \<and>
           sum_list (map (\<lambda>c. length (IDs c)) out) = length opts * length out"
proof -
  let ?out = "map (combine lower) (product_lists (optionData_of opts))"
  have g: "generateCartesianProductForOptions lower opts = Inr ?out"
    using assms by (rule generate_all_nonempty)
  have l: "length ?out = prod_list (map (\<lambda>opt. length (po_Values opt)) opts)"
    by (simp add: length_product_lists_prod optionData_of_def comp_def)
  have "\<forall>c\<in>set ?out. length (IDs c) = length opts"
    by (auto simp: combine_def optionData_of_def dest: in_set_product_lists_length)
  then have "map (\<lambda>c. length (IDs c)) ?out = map (\<lambda>c. length opts) ?out"
    by (intro map_cong) auto
  then have "sum_list (map (\<lambda>c. length (IDs c)) ?out) = sum_list (map (\<lambda>c. length opts) ?out)"
    by (rule arg_cong)
  also have "\<dots> = length opts * length ?out"
    by (simp only: sum_list_triv) simp
  finally have "sum_list (map (\<lambda>c. length (IDs c)) ?out) = length opts * length ?out" .
  with g l show ?thesis by blast
qed

text \<open>
  So the creation handler cannot create a product with options: when no call is made to
  fail from outside, the first variant is inserted, its bridge statement is rejected, and
  the handler rolls back.
\<close>

lemma creation_with_options_fails:
  assumes ok: "all_succeed env"
    and valid: "restrictedStringIsValid env (pci_SKU inp)"
    and fresh: "\<forall>r\<in>set (product_roots (committed db)). r_SKUPrefix r = pci_SKU inp \<longrightarrow> r_ArchivedOn r \<noteq> None"
    and opts: "pci_Options inp \<noteq> []"
    and vals: "\<forall>i\<in>set (pci_Options inp). in_Values i \<noteq> []"
  shows "\<exists>db'. buildProductCreationHandler env (Inr inp) db
             = (Inr (InternalIssue ''insert products in database''), db') \<and>
           (\<exists>pid vids. last (butlast (history db')) =
              (Call_CreateMultipleProductVariantBridgesForProductID pid vids, Some StatementRejected)) \<and>
           fst (last (history db')) = Call_Rollback \<and>
           committed db' = committed db \<and> pending db' = None"
proof -
  let ?np0 = "newProductFromCreationInput inp"
  let ?root0 = "createProductRootFromProduct ?np0"
  let ?np = "?np0\<lparr>p_QuantityPerPackage := word_of_nat (max (unat (p_QuantityPerPackage ?np0)) 1)\<rparr>"
  define db0 where "db0 = record_call (Call_ProductRootWithSKUPrefixExists (pci_SKU inp)) None db"
  define db1 where "db1 = record_call Call_Begin None (db0\<lparr>pending := Some (committed db0)\<rparr>)"
  have s0: "ProductRootWithSKUPrefixExists env DB (pci_SKU inp) db = (Inr False, db0)"
    using ok fresh
    by (auto simp: ProductRootWithSKUPrefixExists_def all_succeed_def db0_def read_tables_def)
  have s1: "Begin env db0 = (None, db1)"
    using ok by (simp add: Begin_def all_succeed_def db1_def)
  have p1: "pending db1 = Some (committed db)" and c1: "committed db1 = committed db"
    by (simp_all add: db1_def db0_def record_call_def)
  from CreateProductRoot_ok [OF ok p1, of ?root0]
  obtain i tm db2 t2 where s2: "CreateProductRoot env TX ?root0 db1 = (Inr (i, tm), db2)"
    and p2: "pending db2 = Some t2" and c2: "committed db2 = committed db1"
    by blast
  let ?root = "?root0\<lparr>r_ID := i, r_CreatedOn := tm\<rparr>"
  from create_options_ok [OF ok p2, of "pci_Options inp" ?root]
  obtain root3 db3 t3 where s3: "create_options env (pci_Options inp) ?root db2 = (Inr root3, db3)"
    and p3: "pending db3 = Some t3" and c3: "committed db3 = committed db2"
    and l3: "map (\<lambda>opt. length (po_Values opt)) (r_Options root3)
             = map (\<lambda>i. length (in_Values i)) (pci_Options inp)"
    by (auto simp: createProductRootFromProduct_def)
  have ne: "r_Options root3 \<noteq> []" using l3 opts by auto
  have "\<forall>n\<in>set (map (\<lambda>opt. length (po_Values opt)) (r_Options root3)). n \<noteq> 0"
    unfolding l3 using vals by auto
  then have pos: "0 \<notin> set (map (\<lambda>opt. length (po_Values opt)) (r_Options root3))"
    by blast
  then have nonempty: "\<forall>opt\<in>set (r_Options root3). po_Values opt \<noteq> []" by auto
  from generate_count [OF ne nonempty, of "ToLower env"]
  obtain combos where g: "generateCartesianProductForOptions (ToLower env) (r_Options root3) = Inr combos"
    and lc: "length combos = prod_list (map (\<lambda>opt. length (po_Values opt)) (r_Options root3))"
    by blast
  have "prod_list (map (\<lambda>opt. length (po_Values opt)) (r_Options root3)) \<noteq> 0"
    using pos by (simp only: prod_list_zero_iff not_False_eq_True)
  with lc obtain option rest where combos: "combos = option # rest"
    by (cases combos) auto
  let ?p = "variant root3 ?np option"
  from CreateProduct_ok [OF ok p3, of ?p]
  obtain pid ptm av db4 where s4: "CreateProduct env TX ?p db3 = (Inr (pid, ptm, av), db4)"
    and c4: "committed db4 = committed db3"
    by blast
  define db5 where "db5 = record_call
      (Call_CreateMultipleProductVariantBridgesForProductID pid (IDs option))
      (Some StatementRejected) db4"
  have s5: "CreateMultipleProductVariantBridgesForProductID env TX pid (IDs option) db4
      = (Some StatementRejected, db5)"
    unfolding db5_def using ok by (rule CreateBridges_rejected)
  have "create_products env root3 ?np combos [] db3 = (Inl StatementRejected, db5)"
    using combos s4 s5 by (simp add: Let_def)
  then have s6: "createProductsInDBFromOptionRows env root3 ?np db3 = (Inl (Fails StatementRejected), db5)"
    using g by (simp add: createProductsInDBFromOptionRows_def)
  have run: "buildProductCreationHandler env (Inr inp) db
      = (Inr (InternalIssue ''insert products in database''), Rollback env db5)"
    using valid s0 s1 s2 s3 opts s6
    by (auto simp add: buildProductCreationHandler_def Let_def)
  have "committed db5 = committed db"
    using c1 c2 c3 c4 by (simp add: db5_def record_call_def)
  moreover have "last (butlast (history (Rollback env db5))) =
      (Call_CreateMultipleProductVariantBridgesForProductID pid (IDs option), Some StatementRejected)"
    by (simp add: Rollback_frame db5_def record_call_def butlast_append)
  ultimately show ?thesis using run
    by (intro exI [of _ "Rollback env db5"]) (auto simp add: Rollback_frame)
qed

section \<open>Lemmas about archiving\<close>

text \<open>
  What a call of the archive operations adds to the history and that it leaves the
  committed tables alone when it runs in a transaction; then the sequences of calls of
  the two deletion handlers, path by path.
\<close>

lemma archive_rows_frame:
  assumes "archive_rows env c statement q db = (res, db')"
  shows "history db' = history db @ [(c, err_of res)]"
  using assms
  by (auto simp: archive_rows_def Let_def record_call_def write_tables_def err_of_def
      split: option.splits sum.splits querier.splits)

lemma archive_rows_committed:
  assumes "archive_rows env c statement TX db = (res, db')"
  shows "committed db' = committed db"
  using assms
  by (auto simp: archive_rows_def Let_def record_call_def write_tables_def
      split: option.splits sum.splits)

lemma DeleteBridgesByProductID_frame:
  assumes "DeleteProductVariantBridgeByProductID env TX x db = (res, db')"
  shows "history db' = history db @ [(Call_DeleteProductVariantBridgeByProductID x, err_of res)]"
    and "committed db' = committed db"
  using assms unfolding DeleteProductVariantBridgeByProductID_def
  by (rule archive_rows_frame, rule archive_rows_committed)

lemma DeleteProduct_frame:
  assumes "DeleteProduct env TX x db = (res, db')"
  shows "history db' = history db @ [(Call_DeleteProduct x, err_of res)]"
    and "committed db' = committed db"
  using assms unfolding DeleteProduct_def
  by (rule archive_rows_frame, rule archive_rows_committed)

lemma scan_first_filter:
  "scan_first (filter P xs) = Inr x \<Longrightarrow> P x"
  by (induction xs) (auto simp: scan_first_def split: if_splits)

lemma GetProductBySKU_frame:
  assumes "GetProductBySKU env q sku db = (res, db')"
  shows "history db' = history db @ [(Call_GetProductBySKU sku, err_of res)]"
    and "committed db' = committed db"
    and "\<And>p. res = Inr p \<Longrightarrow> p_SKU p = sku"
  using assms
  by (auto simp: GetProductBySKU_def Let_def record_call_def err_of_def
      split: option.splits sum.splits dest: scan_first_filter)

lemma deletion_sequence:
  assumes "buildProductDeletionHandler env sku db = (out, db')"
  shows "archive_sequence sku (calls_made db db') \<and> archive_outcome out db db'"
proof -
  obtain r0 db0 where s0: "GetProductBySKU env DB sku db = (r0, db0)"
    by (cases "GetProductBySKU env DB sku db")
  note f0 = GetProductBySKU_frame(1,2) [OF s0]
  show ?thesis
  proof (cases r0)
    case (Inl e)
    then have "db' = db0 \<and> (\<forall>p. out \<noteq> StatusOK p)" using assms s0
      by (auto simp: buildProductDeletionHandler_def split: if_splits)
    then show ?thesis using f0 Inl
      by (simp add: archive_sequence_def archive_outcome_def calls_made_def err_of_def)
  next
    case (Inr product)
    have sku: "p_SKU product = sku" using s0 Inr by (simp add: GetProductBySKU_frame(3))
    obtain be db1 where s1: "Begin env db0 = (be, db1)" by (cases "Begin env db0")
    note f1 = Begin_frame(1,2) [OF s1]
    show ?thesis
    proof (cases be)
      case (Some e)
      then have "db' = db1 \<and> (\<forall>p. out \<noteq> StatusOK p)" using assms s0 Inr s1
        by (auto simp: buildProductDeletionHandler_def)
      then show ?thesis using f0 f1 Inr Some
        by (simp add: archive_sequence_def archive_outcome_def calls_made_def err_of_def)
    next
      case None
      obtain r2 db2 where s2: "DeleteProductVariantBridgeByProductID env TX (p_ID product) db1 = (r2, db2)"
        by (cases "DeleteProductVariantBridgeByProductID env TX (p_ID product) db1")
      note f2 = DeleteBridgesByProductID_frame [OF s2]
      show ?thesis
      proof (cases "isl r2 \<and> r2 \<noteq> Inl ErrNoRows")
        case True
        then have "db' = Rollback env db2 \<and> (\<forall>p. out \<noteq> StatusOK p)" using assms s0 Inr s1 None s2
          by (auto simp: buildProductDeletionHandler_def)
        moreover from True obtain e where "r2 = Inl e" by (cases r2) auto
        ultimately show ?thesis using f0 f1 f2 Inr None
          by (simp add: archive_sequence_def archive_outcome_def calls_made_def err_of_def
              Rollback_frame)
      next
        case False
        obtain r3 db3 where s3: "DeleteProduct env TX (p_ID product) db2 = (r3, db3)"
          by (cases "DeleteProduct env TX (p_ID product) db2")
        note f3 = DeleteProduct_frame [OF s3]
        show ?thesis
        proof (cases r3)
          case (Inl e)
          then have "db' = Rollback env db3 \<and> (\<forall>p. out \<noteq> StatusOK p)"
            using assms s0 Inr s1 None s2 False s3
            by (auto simp: buildProductDeletionHandler_def)
          then show ?thesis using f0 f1 f2 f3 Inr None Inl
            by (simp add: archive_sequence_def archive_outcome_def calls_made_def err_of_def
                Rollback_frame)
        next
          case archived: (Inr archiveTime)
          obtain ce db4 where s4: "Commit env db3 = (ce, db4)" by (cases "Commit env db3")
          note f4 = Commit_frame(1,3) [OF s4]
          show ?thesis
          proof (cases ce)
            case (Some e)
            then have "db' = db4 \<and> (\<forall>p. out \<noteq> StatusOK p)"
              using assms s0 Inr s1 None s2 False s3 archived s4
              by (auto simp: buildProductDeletionHandler_def)
            then show ?thesis using f0 f1 f2 f3 f4 Inr None archived Some
              by (simp add: archive_sequence_def archive_outcome_def calls_made_def err_of_def)
          next
            case committed: None
            obtain we db5 where s5: "GetWebhooksByEventType env DB ''product_archived'' db4 = (we, db5)"
              by (cases "GetWebhooksByEventType env DB ''product_archived'' db4")
            note f5 = Webhooks_frame(1) [OF s5]
            have "db' = db5 \<and> ((\<exists>msg. out = InternalIssue msg) \<or>
                    out = StatusOK (product\<lparr>p_ArchivedOn := Some archiveTime\<rparr>))"
              using assms s0 Inr s1 None s2 False s3 archived s4 committed s5
              by (auto simp: buildProductDeletionHandler_def split: if_splits)
            then show ?thesis using f0 f1 f2 f3 f4 f5 Inr None archived committed sku
              by (auto simp add: archive_sequence_def archive_outcome_def calls_made_def err_of_def)
          qed
        qed
      qed
    qed
  qed
qed

lemma deletion_earlier_sequence:
  assumes "buildProductDeletionHandler_earlier env sku db = (out, db')"
  shows "archive_sequence sku (calls_made db db') \<and> archive_outcome out db db'"
proof -
  obtain r0 db0 where s0: "GetProductBySKU env DB sku db = (r0, db0)"
    by (cases "GetProductBySKU env DB sku db")
  note f0 = GetProductBySKU_frame(1,2) [OF s0]
  show ?thesis
  proof (cases r0)
    case (Inl e)
    then have "db' = db0 \<and> (\<forall>p. out \<noteq> StatusOK p)" using assms s0
      by (auto simp: buildProductDeletionHandler_earlier_def split: if_splits)
    then show ?thesis using f0 Inl
      by (simp add: archive_sequence_def archive_outcome_def calls_made_def err_of_def)
  next
    case (Inr product)
    have sku: "p_SKU product = sku" using s0 Inr by (simp add: GetProductBySKU_frame(3))
    obtain be db1 where s1: "Begin env db0 = (be, db1)" by (cases "Begin env db0")
    note f1 = Begin_frame(1,2) [OF s1]
    show ?thesis
    proof (cases be)
      case (Some e)
      then have "db' = db1 \<and> (\<forall>p. out \<noteq> StatusOK p)" using assms s0 Inr s1
        by (auto simp: buildProductDeletionHandler_earlier_def)
      then show ?thesis using f0 f1 Inr Some
        by (simp add: archive_sequence_def archive_outcome_def calls_made_def err_of_def)
    next
      case None
      obtain r2 db2 where s2: "DeleteProductVariantBridgeByProductID env TX (p_ID product) db1 = (r2, db2)"
        by (cases "DeleteProductVariantBridgeByProductID env TX (p_ID product) db1")
      note f2 = DeleteBridgesByProductID_frame [OF s2]
      show ?thesis
      proof (cases r2)
        case (Inl e)
        then have "db' = Rollback env db2 \<and> (\<forall>p. out \<noteq> StatusOK p)"
          using assms s0 Inr s1 None s2
          by (auto simp: buildProductDeletionHandler_earlier_def)
        then show ?thesis using f0 f1 f2 Inr None Inl
          by (simp add: archive_sequence_def archive_outcome_def calls_made_def err_of_def
              Rollback_frame)
      next
        case bridges: (Inr t2)
        obtain r3 db3 where s3: "DeleteProduct env TX (p_ID product) db2 = (r3, db3)"
          by (cases "DeleteProduct env TX (p_ID product) db2")
        note f3 = DeleteProduct_frame [OF s3]
        show ?thesis
        proof (cases r3)
          case (Inl e)
          then have "db' = Rollback env db3 \<and> (\<forall>p. out \<noteq> StatusOK p)"
            using assms s0 Inr s1 None s2 bridges s3
            by (auto simp: buildProductDeletionHandler_earlier_def)
          then show ?thesis using f0 f1 f2 f3 Inr None Inl
            by (simp add: archive_sequence_def archive_outcome_def calls_made_def err_of_def
                Rollback_frame)
        next
          case archived: (Inr archiveTime)
          obtain ce db4 where s4: "Commit env db3 = (ce, db4)" by (cases "Commit env db3")
          note f4 = Commit_frame(1,3) [OF s4]
          have "db' = db4 \<and> ((\<exists>msg. out = InternalIssue msg \<and> ce \<noteq> None) \<or>
                  out = StatusOK (product\<lparr>p_ArchivedOn := Some archiveTime\<rparr>) \<and> ce = None)"
            using assms s0 Inr s1 None s2 bridges s3 archived s4
            by (auto simp: buildProductDeletionHandler_earlier_def split: option.splits)
          then show ?thesis using f0 f1 f2 f3 f4 Inr None archived sku
            by (auto simp add: archive_sequence_def archive_outcome_def calls_made_def err_of_def)
        qed
      qed
    qed
  qed
qed

lemma archive_sequence_order:
  assumes "archive_sequence sku calls"
  shows "bridges_before_variant calls"
  using assms unfolding archive_sequence_def
proof (elim disjE exE conjE)
  fix e assume "calls = [(Call_GetProductBySKU sku, Some e)]"
  then show ?thesis by (simp add: bridges_before_variant_def)
next
  fix e assume "calls = [(Call_GetProductBySKU sku, None), (Call_Begin, Some e)]"
  then show ?thesis by (simp add: bridges_before_variant_def All_less_Suc)
next
  fix x e r
  assume "calls = [(Call_GetProductBySKU sku, None), (Call_Begin, None),
                       (Call_DeleteProductVariantBridgeByProductID x, Some e), (Call_Rollback, r)]"
  then show ?thesis by (simp add: bridges_before_variant_def All_less_Suc)
next
  fix x b e r
  assume "calls = [(Call_GetProductBySKU sku, None), (Call_Begin, None),
                         (Call_DeleteProductVariantBridgeByProductID x, b),
                         (Call_DeleteProduct x, Some e), (Call_Rollback, r)]"
  then show ?thesis by (simp add: bridges_before_variant_def All_less_Suc numeral_2_eq_2)
next
  fix x b c rest
  assume "calls = [(Call_GetProductBySKU sku, None), (Call_Begin, None),
                            (Call_DeleteProductVariantBridgeByProductID x, b),
                            (Call_DeleteProduct x, None), (Call_Commit, c)] @ rest"
    and "rest = []"
  then show ?thesis by (simp add: bridges_before_variant_def All_less_Suc numeral_2_eq_2)
next
  fix x b c rest w
  assume "calls = [(Call_GetProductBySKU sku, None), (Call_Begin, None),
                            (Call_DeleteProductVariantBridgeByProductID x, b),
                            (Call_DeleteProduct x, None), (Call_Commit, c)] @ rest"
    and "rest = [(Call_GetWebhooksByEventType ''product_archived'', w)]"
  then show ?thesis by (simp add: bridges_before_variant_def All_less_Suc numeral_2_eq_2)
qed

text \<open>
  The archive statements that carry the condition \<open>archived_on IS NULL\<close> leave a row
  alone that has its timestamp.
\<close>

lemma productVariantBridgeDeletionQueryByProductID_keeps_archived:
  assumes "i < length rows" and "b_ArchivedOn (rows ! i) = Some t"
  shows "fst (productVariantBridgeDeletionQueryByProductID now productID rows) ! i = rows ! i"
  using assms by (simp add: productVariantBridgeDeletionQueryByProductID_def)

lemma productOptionDeletionQuery_keeps_archived:
  assumes "i < length rows" and "po_ArchivedOn (rows ! i) = Some t"
  shows "productOptionDeletionQuery now x rows ! i = rows ! i"
  using assms by (simp add: productOptionDeletionQuery_def)

lemma productOptionValuesDeletionQueryByOptionID_keeps_archived:
  assumes "i < length rows" and "ov_ArchivedOn (rows ! i) = Some t"
  shows "productOptionValuesDeletionQueryByOptionID now optionID rows ! i = rows ! i"
  using assms by (simp add: productOptionValuesDeletionQueryByOptionID_def)

text \<open>
  In both versions of the deletion handler the call that archives the variant comes
  directly after the call that archives its bridge rows, in one transaction.
\<close>

lemma deletion_calls_in_order:
  assumes "h = buildProductDeletionHandler \<or> h = buildProductDeletionHandler_earlier"
    and "h env sku db = (out, db')"
  shows "archive_sequence sku (calls_made db db') \<and>
         bridges_before_variant (calls_made db db') \<and>
         archive_outcome out db db'"
proof -
  from assms have run: "archive_sequence sku (calls_made db db') \<and> archive_outcome out db db'"
    by (auto dest: deletion_sequence deletion_earlier_sequence)
  then have "bridges_before_variant (calls_made db db')"
    by (blast intro: archive_sequence_order)
  with run show ?thesis by simp
qed

text \<open>
  The later version of the deletion handler archives an existing variant: when no call
  fails from outside and a live variant has the SKU, the handler archives the live bridge
  rows of the variant, then the variant, commits, and answers with the archived variant.
\<close>

lemma scan_first_isl: "isl (scan_first rows) \<Longrightarrow> scan_first rows = Inl ErrNoRows"
  by (cases rows) (simp_all add: scan_first_def)

lemma deletion_archives_existing_variant:
  assumes ok: "all_succeed env"
    and found: "filter (\<lambda>p. p_SKU p = sku \<and> p_ArchivedOn p = None) (products (committed db))
                  = p # others"
  shows "\<exists>t db'. buildProductDeletionHandler env sku db
             = (StatusOK (p\<lparr>p_ArchivedOn := Some t\<rparr>), db') \<and>
           map fst (calls_made db db') =
             [Call_GetProductBySKU sku, Call_Begin,
              Call_DeleteProductVariantBridgeByProductID (p_ID p), Call_DeleteProduct (p_ID p),
              Call_Commit, Call_GetWebhooksByEventType ''product_archived''] \<and>
           (\<forall>b\<in>set (product_variant_bridge (committed db')).
              b_ProductID b = p_ID p \<longrightarrow> b_ArchivedOn b \<noteq> None) \<and>
           (\<forall>q\<in>set (products (committed db')). p_ID q = p_ID p \<longrightarrow> p_ArchivedOn q \<noteq> None)"
proof -
  have nofail: "\<And>k. fails env k = None" using ok by (simp add: all_succeed_def)
  have live: "p \<in> set (products (committed db))" "p_ArchivedOn p = None" "p_SKU p = sku"
    using found [symmetric] by (auto dest: Cons_eq_filterD)
  define db0 where "db0 = record_call (Call_GetProductBySKU sku) None db"
  have s0: "GetProductBySKU env DB sku db = (Inr p, db0)"
    by (simp add: GetProductBySKU_def nofail read_tables_def found scan_first_def db0_def)
  define db1 where "db1 = record_call Call_Begin None (db0\<lparr>pending := Some (committed db0)\<rparr>)"
  have s1: "Begin env db0 = (None, db1)"
    by (simp add: Begin_def nofail db1_def)
  let ?statement = "productVariantBridgeDeletionQueryByProductID
      (clock env (length (history db1))) (p_ID p) (product_variant_bridge (committed db))"
  let ?bridges = "fst ?statement"
  define r2 where "r2 = scan_first (snd ?statement)"
  define db2 where "db2 = record_call (Call_DeleteProductVariantBridgeByProductID (p_ID p))
      (err_of r2) (db1\<lparr>pending := Some ((committed db)\<lparr>product_variant_bridge := ?bridges\<rparr>)\<rparr>)"
  have p1: "pending db1 = Some (committed db)"
    by (simp add: db1_def db0_def record_call_def)
  have s2: "DeleteProductVariantBridgeByProductID env TX (p_ID p) db1 = (r2, db2)"
    using p1
    by (simp add: DeleteProductVariantBridgeByProductID_def archive_rows_def nofail Let_def
        read_tables_def write_tables_def split_def r2_def db2_def err_of_def)
  have r2: "\<not> (isl r2 \<and> r2 \<noteq> Inl ErrNoRows)"
    unfolding r2_def using scan_first_isl by blast
  have h2: "history db2 = history db1 @
      [(Call_DeleteProductVariantBridgeByProductID (p_ID p), err_of r2)]"
    and p2: "pending db2 = Some ((committed db)\<lparr>product_variant_bridge := ?bridges\<rparr>)"
    by (simp_all add: db2_def record_call_def)
  let ?now = "clock env (length (history db2))"
  let ?products = "map (\<lambda>q. if p_ID q = p_ID p \<and> p_ArchivedOn q = None
                                then q\<lparr>p_ArchivedOn := Some ?now\<rparr> else q) (products (committed db))"
  define db3 where "db3 = record_call (Call_DeleteProduct (p_ID p)) None
      (db2\<lparr>pending := Some ((committed db)\<lparr>product_variant_bridge := ?bridges,
                                               products := ?products\<rparr>)\<rparr>)"
  have "filter (\<lambda>q. p_ID q = p_ID p \<and> p_ArchivedOn q = None) (products (committed db)) \<noteq> []"
    using live by (auto simp: filter_empty_conv)
  then obtain q qs where
    "filter (\<lambda>q. p_ID q = p_ID p \<and> p_ArchivedOn q = None) (products (committed db)) = q # qs"
    by (cases "filter (\<lambda>q. p_ID q = p_ID p \<and> p_ArchivedOn q = None) (products (committed db))") auto
  then have s3: "DeleteProduct env TX (p_ID p) db2 = (Inr ?now, db3)"
    using p2
    by (simp add: DeleteProduct_def archive_rows_def nofail Let_def read_tables_def
        write_tables_def scan_first_def db3_def)
  define db4 where "db4 = record_call Call_Commit None
      (db3\<lparr>committed := (committed db)\<lparr>product_variant_bridge := ?bridges, products := ?products\<rparr>,
           pending := None\<rparr>)"
  have s4: "Commit env db3 = (None, db4)"
    by (simp add: Commit_def nofail db4_def db3_def record_call_def)
  define db5 where "db5 = record_call (Call_GetWebhooksByEventType ''product_archived'') None db4"
  have s5: "GetWebhooksByEventType env DB ''product_archived'' db4 = (None, db5)"
    by (simp add: GetWebhooksByEventType_def nofail db5_def)
  have run: "buildProductDeletionHandler env sku db = (StatusOK (p\<lparr>p_ArchivedOn := Some ?now\<rparr>), db5)"
    using s0 s1 s2 r2 s3 s4 s5 by (simp add: buildProductDeletionHandler_def)
  have calls: "map fst (calls_made db db5) =
             [Call_GetProductBySKU sku, Call_Begin,
              Call_DeleteProductVariantBridgeByProductID (p_ID p), Call_DeleteProduct (p_ID p),
              Call_Commit, Call_GetWebhooksByEventType ''product_archived'']"
    using h2
    by (simp add: calls_made_def db5_def db4_def db3_def db1_def db0_def record_call_def)
  have tables: "committed db5 =
      (committed db)\<lparr>product_variant_bridge := ?bridges, products := ?products\<rparr>"
    by (simp add: db5_def db4_def record_call_def)
  have bridges: "\<forall>b\<in>set (product_variant_bridge (committed db5)).
      b_ProductID b = p_ID p \<longrightarrow> b_ArchivedOn b \<noteq> None"
    unfolding tables by (auto simp: productVariantBridgeDeletionQueryByProductID_def)
  have variant: "\<forall>q\<in>set (products (committed db5)). p_ID q = p_ID p \<longrightarrow> p_ArchivedOn q \<noteq> None"
    unfolding tables by auto
  show ?thesis
    by (rule exI [of _ ?now], rule exI [of _ db5], intro conjI)
      (rule run, rule calls, rule bridges, rule variant)
qed

section \<open>The claims about the enumerator\<close>

lemma odometer_order_product_lists: "odometer_order xss = product_lists xss"
  by (induction xss) simp_all

lemma product_lists_map_map:
  "product_lists (map (map f) xss) = map (map f) (product_lists xss)"
  by (induction xss) (simp_all add: map_concat comp_def)

lemma OriginalValues_optionData:
  "map (map ph_OriginalValue) (optionData_of opts) = map po_Values opts"
  by (simp add: optionData_of_def placeholder_def comp_def)

lemma OriginalValues_combine:
  "map OriginalValues (map (combine lower) pss) = map (map ph_OriginalValue) pss"
  by (simp add: combine_def comp_def)

lemma generate_OriginalValues:
  assumes "opts \<noteq> []" and "\<forall>opt\<in>set opts. po_Values opt \<noteq> []"
  shows "\<exists>out. generateCartesianProductForOptions lower opts = Inr out \<and>
           map OriginalValues out = odometer_order (map po_Values opts) \<and>
           (\<forall>c\<in>set out. IDs c = map ov_ID (OriginalValues c))"
proof -
  let ?out = "map (combine lower) (product_lists (optionData_of opts))"
  have "generateCartesianProductForOptions lower opts = Inr ?out"
    using assms by (rule generate_all_nonempty)
  moreover have "map OriginalValues ?out = odometer_order (map po_Values opts)"
    by (simp only: OriginalValues_combine odometer_order_product_lists
        flip: product_lists_map_map OriginalValues_optionData)
  moreover have "\<forall>c\<in>set ?out. IDs c = map ov_ID (OriginalValues c)"
  proof
    fix c assume "c \<in> set ?out"
    then obtain ps where ps: "ps \<in> set (product_lists (optionData_of opts))"
      and c: "c = combine lower ps" by auto
    have "\<forall>p\<in>set ps. ph_ID p = ov_ID (ph_OriginalValue p)"
    proof
      fix p assume "p \<in> set ps"
      then obtain i where i: "i < length ps" and p: "p = ps ! i"
        by (metis in_set_conv_nth)
      from ps have all2: "list_all2 (\<lambda>x ys. x \<in> set ys) ps (optionData_of opts)"
        by (simp add: product_lists_set)
      then have "ps ! i \<in> set (optionData_of opts ! i)" and "i < length opts"
        using i by (auto simp: list_all2_conv_all_nth optionData_of_def)
      then obtain v where "p = placeholder (opts ! i) v"
        using p by (auto simp: optionData_of_def)
      then show "ph_ID p = ov_ID (ph_OriginalValue p)"
        by (simp add: placeholder_def)
    qed
    then show "IDs c = map ov_ID (OriginalValues c)"
      by (simp add: c combine_def)
  qed
  ultimately show ?thesis by blast
qed

text \<open>
  Claim C4. For a non-empty list of options that all have at least one value, the
  enumerator returns, and the values it selected are all the combinations of one value
  per option in odometer order: the last option cycles fastest, the first slowest. The
  identifiers of a combination are those of its selected values, in the same order.
\<close>

theorem enumerator_odometer_order:
  assumes "inputOptions \<noteq> []" and "\<forall>opt\<in>set inputOptions. po_Values opt \<noteq> []"
  shows "\<exists>out. generateCartesianProductForOptions lower inputOptions = Inr out \<and>
           map OriginalValues out = odometer_order (map po_Values inputOptions) \<and>
           (\<forall>c\<in>set out. IDs c = map ov_ID (OriginalValues c))"
  using assms by (rule generate_OriginalValues)

theorem enumerator_odometer_order_witness:
  "\<exists>out. generateCartesianProductForOptions ToLower_ascii [example_size, example_color] = Inr out \<and>
      map (map ov_Value) (map OriginalValues out) =
        [[''Small'', ''Red''], [''Small'', ''Blue''], [''Medium'', ''Red''],
         [''Medium'', ''Blue''], [''Large'', ''Red''], [''Large'', ''Blue'']] \<and>
      map IDs out = [[1, 4], [1, 5], [2, 4], [2, 5], [3, 4], [3, 5]]"
proof -
  have h1: "[example_size, example_color] \<noteq> []" by simp
  have h2: "\<forall>opt\<in>set [example_size, example_color]. po_Values opt \<noteq> []"
    by (simp add: example_size_def example_color_def)
  from enumerator_odometer_order [OF h1 h2, of ToLower_ascii]
  obtain out where out: "generateCartesianProductForOptions ToLower_ascii [example_size, example_color] = Inr out"
    and vals: "map OriginalValues out = odometer_order (map po_Values [example_size, example_color])"
    and ids: "\<forall>c\<in>set out. IDs c = map ov_ID (OriginalValues c)"
    by blast
  have v: "map (map ov_Value) (map OriginalValues out) =
        [[''Small'', ''Red''], [''Small'', ''Blue''], [''Medium'', ''Red''],
         [''Medium'', ''Blue''], [''Large'', ''Red''], [''Large'', ''Blue'']]"
    by (simp add: vals example_size_def example_color_def example_value_def)
  have "map IDs out = map (map ov_ID) (map OriginalValues out)"
    using ids by simp
  then have i: "map IDs out = [[1, 4], [1, 5], [2, 4], [2, 5], [3, 4], [3, 5]]"
    by (simp add: vals example_size_def example_color_def example_value_def)
  show ?thesis
    by (intro conjI exI [of _ out]) (rule out v i)+
qed

text \<open>
  Claim C5, as the specification states it, fails: for the empty option list the
  enumerator does not return the empty sequence.
\<close>

theorem enumerator_empty_counterexample:
  "generateCartesianProductForOptions ToLower_ascii [] \<noteq> Inr []"
  by (simp add: generate_Nil)

text \<open>
  Claim C5, amended. For the empty option list the enumerator does not return: the
  condition of its loop reads position 0 of an empty index slice, and the call panics
  with an index out of range. The creation handler never makes that call, because it
  tests \<open>len(productInput.Options) == 0\<close> first and creates the base product itself.
\<close>

theorem enumerator_empty_panics:
  "generateCartesianProductForOptions lower [] = Inl IndexOutOfRange"
  by (rule generate_Nil)

section \<open>The claims about the creation handler\<close>

text \<open>
  Claim C2. Whenever a creation call of the store (of the root, an option, a value, a
  variant or its bridge rows) fails inside the transaction of the creation handler, in
  either of its two versions, the handler calls \<open>Rollback\<close> as its last call and
  answers with an internal error; the committed tables are those from before the request
  and no transaction stays open.
\<close>

theorem creation_failure_rolls_back:
  assumes "h = buildProductCreationHandler \<or> h = buildProductCreationHandler_earlier"
    and "h env req db = (out, db')"
    and "(c, Some e) \<in> set (calls_made db db')"
    and "is_creation c"
  shows "(\<exists>msg. out = Inr (InternalIssue msg)) \<and> fst (last (history db')) = Call_Rollback \<and>
         committed db' = committed db \<and> pending db' = None"
  using assms(1)
proof
  assume "h = buildProductCreationHandler"
  with assms(2) have "buildProductCreationHandler env req db = (out, db')" by simp
  then show ?thesis using assms(3,4) by (rule failed_creation_rolled_back)
next
  assume "h = buildProductCreationHandler_earlier"
  with assms(2) have "buildProductCreationHandler_earlier env req db = (out, db')" by simp
  then show ?thesis using assms(3,4) by (rule failed_creation_rolled_back_earlier)
qed

theorem creation_failure_rolls_back_witness:
  "(\<exists>msg. fst (buildProductCreationHandler_earlier (example_env (failure_at 10 ConnectionLost))
                (Inr (example_shirt [size_input, color_input])) empty_db)
            = Inr (InternalIssue msg)) \<and>
   fst (last (history (snd (buildProductCreationHandler_earlier
                (example_env (failure_at 10 ConnectionLost))
                (Inr (example_shirt [size_input, color_input])) empty_db)))) = Call_Rollback \<and>
   committed (snd (buildProductCreationHandler_earlier (example_env (failure_at 10 ConnectionLost))
                (Inr (example_shirt [size_input, color_input])) empty_db)) = committed empty_db \<and>
   pending (snd (buildProductCreationHandler_earlier (example_env (failure_at 10 ConnectionLost))
                (Inr (example_shirt [size_input, color_input])) empty_db)) = None"
proof -
  let ?run = "buildProductCreationHandler_earlier (example_env (failure_at 10 ConnectionLost))
                (Inr (example_shirt [size_input, color_input])) empty_db"
  have h: "buildProductCreationHandler_earlier = buildProductCreationHandler \<or>
           buildProductCreationHandler_earlier = buildProductCreationHandler_earlier"
    by simp
  have run: "?run = (fst ?run, snd ?run)" by simp
  have "list_ex (\<lambda>x. snd x = Some ConnectionLost \<and> is_creation (fst x))
          (calls_made empty_db (snd ?run))"
    by code_simp
  then obtain c where c: "(c, Some ConnectionLost) \<in> set (calls_made empty_db (snd ?run))"
    and k: "is_creation c"
    by (auto simp: list_ex_iff)
  from creation_failure_rolls_back [OF h run c k] show ?thesis .
qed

text \<open>
  Claim C8, as the specification states it, fails: the first variant of the shirt is
  refused by the store with a uniqueness violation, and the handler answers with an
  internal error.
\<close>

theorem uniqueness_violation_counterexample:
  "snd (history (snd (buildProductCreationHandler (example_env (failure_at 10 UniqueViolation))
          (Inr (example_shirt [size_input, color_input])) empty_db)) ! 10) = Some UniqueViolation \<and>
   fst (buildProductCreationHandler (example_env (failure_at 10 UniqueViolation))
          (Inr (example_shirt [size_input, color_input])) empty_db)
     = Inr (InternalIssue ''insert products in database'')"
  by code_simp

text \<open>
  Claim C8, amended. The creation handler does not tell a uniqueness violation from any
  other error of the store. When a creation call or the commit fails with a uniqueness
  violation, the handler answers with an internal error, the committed tables are those
  from before the request and no transaction stays open; after a failed creation call
  the last call of the handler is \<open>Rollback\<close>.
\<close>

theorem uniqueness_violation_is_internal_error:
  assumes "buildProductCreationHandler env req db = (out, db')"
    and "(c, Some UniqueViolation) \<in> set (calls_made db db')"
    and "is_creation c \<or> c = Call_Commit"
  shows "(\<exists>msg. out = Inr (InternalIssue msg)) \<and> committed db' = committed db \<and>
         pending db' = None \<and> (is_creation c \<longrightarrow> fst (last (history db')) = Call_Rollback)"
proof (cases "is_creation c")
  case True
  from failed_creation_rolled_back [OF assms(1,2) True] show ?thesis by simp
next
  case False
  with assms(3) have "c = Call_Commit" by simp
  with failed_commit_discards [OF assms(1)] assms(2) False show ?thesis by simp
qed

theorem uniqueness_violation_is_internal_error_witness:
  "(\<exists>msg. fst (buildProductCreationHandler (example_env (failure_at 2 UniqueViolation))
                (Inr (example_shirt [])) empty_db)
            = Inr (InternalIssue msg)) \<and>
   committed (snd (buildProductCreationHandler (example_env (failure_at 2 UniqueViolation))
                (Inr (example_shirt [])) empty_db)) = committed empty_db \<and>
   pending (snd (buildProductCreationHandler (example_env (failure_at 2 UniqueViolation))
                (Inr (example_shirt [])) empty_db)) = None \<and>
   fst (last (history (snd (buildProductCreationHandler (example_env (failure_at 2 UniqueViolation))
                (Inr (example_shirt [])) empty_db)))) = Call_Rollback"
proof -
  let ?run = "buildProductCreationHandler (example_env (failure_at 2 UniqueViolation))
                (Inr (example_shirt [])) empty_db"
  let ?c = "Call_CreateProductRoot
              (createProductRootFromProduct (newProductFromCreationInput (example_shirt [])))"
  have run: "?run = (fst ?run, snd ?run)" by simp
  have c: "(?c, Some UniqueViolation) \<in> set (calls_made empty_db (snd ?run))"
    by code_simp
  have k: "is_creation ?c \<or> ?c = Call_Commit" by simp
  from uniqueness_violation_is_internal_error [OF run c k] show ?thesis by simp
qed

text \<open>
  Claim C10. Every product that the creation handler hands to \<open>CreateProduct\<close> carries
  the quantity per package of the payload raised to at least 1, while the root, created
  before, is built from the payload as it came.
\<close>

theorem quantity_per_package_at_least_one:
  assumes "buildProductCreationHandler env (Inr inp) db = (out, db')"
    and "(c, e) \<in> set (calls_made db db')"
  shows "(\<forall>p. c = Call_CreateProduct p \<longrightarrow>
            p_QuantityPerPackage p = max (pci_QuantityPerPackage inp) 1 \<and>
            1 \<le> p_QuantityPerPackage p) \<and>
         (\<forall>r. c = Call_CreateProductRoot r \<longrightarrow>
            r_QuantityPerPackage r = pci_QuantityPerPackage inp)"
proof (intro conjI allI impI)
  fix p assume c: "c = Call_CreateProduct p"
  then have "tx_call inp c" using creation_calls_of_run [OF assms] by simp
  then show "p_QuantityPerPackage p = max (pci_QuantityPerPackage inp) 1" using c
    by (simp add: tx_call_def)
  then show "1 \<le> p_QuantityPerPackage p" by simp
next
  fix r assume c: "c = Call_CreateProductRoot r"
  then have "tx_call inp c" using creation_calls_of_run [OF assms] by simp
  then show "r_QuantityPerPackage r = pci_QuantityPerPackage inp" using c
    by (simp add: tx_call_def createProductRootFromProduct_def newProductFromCreationInput_def)
qed

theorem quantity_per_package_at_least_one_witness:
  "(Call_CreateProduct
      ((newProductFromCreationInput (example_shirt []))
         \<lparr>p_QuantityPerPackage := 1, p_ProductRootID := 2\<rparr>), None)
     \<in> set (calls_made empty_db
              (snd (buildProductCreationHandler (example_env no_failure)
                      (Inr (example_shirt [])) empty_db))) \<and>
   pci_QuantityPerPackage (example_shirt []) = 0 \<and>
   p_QuantityPerPackage
     ((newProductFromCreationInput (example_shirt []))
        \<lparr>p_QuantityPerPackage := 1, p_ProductRootID := 2\<rparr>) = 1"
proof -
  let ?run = "buildProductCreationHandler (example_env no_failure) (Inr (example_shirt [])) empty_db"
  let ?p = "(newProductFromCreationInput (example_shirt []))
              \<lparr>p_QuantityPerPackage := 1, p_ProductRootID := 2\<rparr>"
  have run: "?run = (fst ?run, snd ?run)" by simp
  have c: "(Call_CreateProduct ?p, None) \<in> set (calls_made empty_db (snd ?run))"
    by code_simp
  have q: "pci_QuantityPerPackage (example_shirt []) = 0" by (simp add: example_shirt_def)
  from quantity_per_package_at_least_one [OF run c]
  have "p_QuantityPerPackage ?p = max (pci_QuantityPerPackage (example_shirt [])) 1"
    by blast
  then have "p_QuantityPerPackage ?p = 1" by (simp add: q)
  with c q show ?thesis by blast
qed

text \<open>
  Claim C6, as the specification states it, fails: the payload of a shirt whose only
  option has no value passes the checks of the handler, which opens a transaction,
  creates the root and the option, commits and answers with status 201 and no product.
\<close>

theorem empty_option_counterexample:
  "map fst (history (snd (buildProductCreationHandler (example_env no_failure)
          (Inr (example_shirt [empty_input])) empty_db)))
     = [Call_ProductRootWithSKUPrefixExists ''shirt'', Call_Begin,
        Call_CreateProductRoot
          \<lparr>r_ID = 0, r_Name = ''T-Shirt'', r_SKUPrefix = ''shirt'', r_QuantityPerPackage = 0,
           r_Options = [], r_Products = [], r_CreatedOn = 0, r_ArchivedOn = None\<rparr>,
        Call_CreateProductOption
          \<lparr>po_ID = 0, po_Name = ''Material'', po_ProductRootID = 2, po_Values = [],
           po_CreatedOn = 0, po_ArchivedOn = None\<rparr>,
        Call_Commit, Call_GetWebhooksByEventType ''product_created''] \<and>
   fst (buildProductCreationHandler (example_env no_failure)
          (Inr (example_shirt [empty_input])) empty_db)
     = Inr (StatusCreated
         \<lparr>r_ID = 2, r_Name = ''T-Shirt'', r_SKUPrefix = ''shirt'', r_QuantityPerPackage = 0,
          r_Options = [\<lparr>po_ID = 3, po_Name = ''Material'', po_ProductRootID = 2, po_Values = [],
                        po_CreatedOn = 1003, po_ArchivedOn = None\<rparr>],
          r_Products = [], r_CreatedOn = 1002, r_ArchivedOn = None\<rparr>)"
  by code_simp

text \<open>
  Claim C6, amended. The creation handler answers with a validation error exactly when
  the request fails \<open>validateRequestInput\<close>, its SKU is not a valid restricted string,
  or the check of the SKU prefix fails or finds the prefix taken; it then opens no
  transaction. The number of values of an option is not looked at: for every other
  payload, with or without an option that has no value, the second call of the handler
  opens the transaction.
\<close>

theorem validation_rejections:
  assumes "buildProductCreationHandler env req db = (out, db')"
  shows "((\<exists>m. out = Inr (InvalidRequestBody m)) \<longleftrightarrow> rejected_before_transaction env req db) \<and>
         (rejected_before_transaction env req db \<longrightarrow> Call_Begin \<notin> fst ` set (calls_made db db')) \<and>
         (\<not> rejected_before_transaction env req db \<longrightarrow> fst (calls_made db db' ! 1) = Call_Begin)"
  using rejected_iff [OF assms] rejected_no_Begin [OF assms] accepted_Begin [OF assms]
  by blast

theorem validation_rejections_witness:
  "\<not> rejected_before_transaction (example_env no_failure) (Inr (example_shirt [empty_input])) empty_db \<and>
   fst (calls_made empty_db (snd (buildProductCreationHandler (example_env no_failure)
          (Inr (example_shirt [empty_input])) empty_db)) ! 1) = Call_Begin \<and>
   rejected_before_transaction (example_env no_failure) (Inl ''unexpected end of JSON input'') empty_db \<and>
   Call_Begin \<notin> fst ` set (calls_made empty_db (snd (buildProductCreationHandler (example_env no_failure)
          (Inl ''unexpected end of JSON input'') empty_db)))"
proof -
  let ?run = "buildProductCreationHandler (example_env no_failure)
                (Inr (example_shirt [empty_input])) empty_db"
  let ?bad = "buildProductCreationHandler (example_env no_failure)
                (Inl ''unexpected end of JSON input'') empty_db"
  have run: "?run = (fst ?run, snd ?run)" and bad: "?bad = (fst ?bad, snd ?bad)" by simp_all
  have acc: "\<not> rejected_before_transaction (example_env no_failure)
      (Inr (example_shirt [empty_input])) empty_db"
    by code_simp
  have rej: "rejected_before_transaction (example_env no_failure)
      (Inl ''unexpected end of JSON input'') empty_db"
    by (simp add: rejected_before_transaction_def)
  from validation_rejections [OF run] acc validation_rejections [OF bad] rej
  show ?thesis by blast
qed



text \<open>
  Claim C1. The claim does not hold of the code. Take a payload that passes the checks of
  the handler (a valid SKU whose prefix no live root has), with at least one option and
  at least one value for every option, and let no call fail from outside. The handler
  inserts the first variant and sends the bridge statement for it, which PostgreSQL
  rejects because of the parentheses around its value pairs. The handler then rolls back
  and answers with an internal error: no variant and no bridge row is committed, where
  the claim counts \<open>v1 \<times> \<dots> \<times> vn\<close> variants and \<open>n\<close> times as many bridge rows.
\<close>

theorem creation_with_options_rolls_back:
  assumes "all_succeed env"
    and "restrictedStringIsValid env (pci_SKU inp)"
    and "\<forall>r\<in>set (product_roots (committed db)). r_SKUPrefix r = pci_SKU inp \<longrightarrow> r_ArchivedOn r \<noteq> None"
    and "pci_Options inp \<noteq> []"
    and "\<forall>i\<in>set (pci_Options inp). in_Values i \<noteq> []"
  shows "\<exists>db'. buildProductCreationHandler env (Inr inp) db
             = (Inr (InternalIssue ''insert products in database''), db') \<and>
           (\<exists>pid vids. last (butlast (history db')) =
              (Call_CreateMultipleProductVariantBridgesForProductID pid vids, Some StatementRejected)) \<and>
           fst (last (history db')) = Call_Rollback \<and>
           committed db' = committed db \<and> pending db' = None"
  using assms by (rule creation_with_options_fails)

theorem creation_with_options_rolls_back_witness:
  "fst (buildProductCreationHandler (example_env no_failure)
          (Inr (example_shirt [size_input, color_input])) empty_db)
     = Inr (InternalIssue ''insert products in database'') \<and>
   (\<exists>pid vids. last (butlast (history (snd (buildProductCreationHandler (example_env no_failure)
          (Inr (example_shirt [size_input, color_input])) empty_db)))) =
      (Call_CreateMultipleProductVariantBridgesForProductID pid vids, Some StatementRejected)) \<and>
   fst (last (history (snd (buildProductCreationHandler (example_env no_failure)
          (Inr (example_shirt [size_input, color_input])) empty_db)))) = Call_Rollback \<and>
   products (committed (snd (buildProductCreationHandler (example_env no_failure)
          (Inr (example_shirt [size_input, color_input])) empty_db))) = [] \<and>
   product_variant_bridge (committed (snd (buildProductCreationHandler (example_env no_failure)
          (Inr (example_shirt [size_input, color_input])) empty_db))) = [] \<and>
   buildMultiProductVariantBridgeCreationQuery 10 [1, 4]
     = ([[RowConstructor [1, 2], RowConstructor [1, 3]]], [10, 1, 4]) \<and>
   those (map (bridge_row [10, 1, 4]) [[RowConstructor [1, 2], RowConstructor [1, 3]]]) = None"
proof -
  let ?env = "example_env no_failure"
  let ?inp = "example_shirt [size_input, color_input]"
  let ?run = "buildProductCreationHandler ?env (Inr ?inp) empty_db"
  have ok: "all_succeed ?env"
    by (simp add: all_succeed_def example_env_def no_failure_def)
  have valid: "restrictedStringIsValid ?env (pci_SKU ?inp)"
    by (simp add: example_env_def example_shirt_def example_sku_valid_def)
  have fresh: "\<forall>r\<in>set (product_roots (committed empty_db)).
      r_SKUPrefix r = pci_SKU ?inp \<longrightarrow> r_ArchivedOn r \<noteq> None"
    by (simp add: empty_db_def empty_tables_def)
  have opts: "pci_Options ?inp \<noteq> []"
    by (simp add: example_shirt_def)
  have vals: "\<forall>i\<in>set (pci_Options ?inp). in_Values i \<noteq> []"
    by (simp add: example_shirt_def size_input_def color_input_def)
  from creation_with_options_rolls_back [OF ok valid fresh opts vals]
  obtain db' where run: "?run = (Inr (InternalIssue ''insert products in database''), db')"
    and rejected: "\<exists>pid vids. last (butlast (history db')) =
        (Call_CreateMultipleProductVariantBridgesForProductID pid vids, Some StatementRejected)"
    and rollback: "fst (last (history db')) = Call_Rollback"
    and same: "committed db' = committed empty_db"
    by blast
  have "fst ?run = Inr (InternalIssue ''insert products in database'')"
    using run by simp
  moreover have "\<exists>pid vids. last (butlast (history (snd ?run))) =
      (Call_CreateMultipleProductVariantBridgesForProductID pid vids, Some StatementRejected)"
    using run rejected by simp
  moreover have "fst (last (history (snd ?run))) = Call_Rollback"
    using run rollback by simp
  moreover have "products (committed (snd ?run)) = []"
    "product_variant_bridge (committed (snd ?run)) = []"
    using run same by (simp_all add: empty_db_def empty_tables_def)
  moreover have "buildMultiProductVariantBridgeCreationQuery 10 [1, 4]
      = ([[RowConstructor [1, 2], RowConstructor [1, 3]]], [10, 1, 4])"
    by code_simp
  moreover have "those (map (bridge_row [10, 1, 4])
      [[RowConstructor [1, 2], RowConstructor [1, 3]]]) = None"
    by code_simp
  ultimately show ?thesis by (intro conjI)
qed

section \<open>The claims about archiving\<close>

text \<open>
  Claim C7. The statement behind \<open>DeleteProductVariantBridge\<close> selects the row by its
  identifier alone, without the condition \<open>archived_on IS NULL\<close> of the other archive
  statements. Archiving the bridge row 2, which was archived at time 950, at time 1000
  writes the new timestamp to the row and returns it: the operation is not monotonic.
\<close>

theorem bridge_archived_by_id_twice:
  "b_ArchivedOn (example_bridge 2 4 (Some 950)) = Some 950 \<and>
   productVariantBridgeDeletionQuery 1000 2
       [example_bridge 1 1 None, example_bridge 2 4 (Some 950)]
     = ([example_bridge 1 1 None, example_bridge 2 4 (Some 1000)], [1000]) \<and>
   fst (DeleteProductVariantBridge (example_env no_failure) DB 2 stocked_db) = Inr 1000 \<and>
   product_variant_bridge
       (committed (snd (DeleteProductVariantBridge (example_env no_failure) DB 2 stocked_db)))
     = [example_bridge 1 1 None, example_bridge 2 4 (Some 1000)]"
  by code_simp

text \<open>
  Claim C9. The claim does not hold of the earlier version of the deletion handler. The
  product \<open>shirt\<close>, created without options, exists and has no bridge row. The statement that
  archives its bridge rows returns no row, so \<open>DeleteProductVariantBridgeByProductID\<close>
  returns \<open>sql.ErrNoRows\<close>; the earlier handler treats that as a failure, rolls back
  and answers with an internal error, and the variant stays live. The later version lets
  \<open>sql.ErrNoRows\<close> pass: on the same request it archives the variant and answers
  with it.
\<close>

theorem earlier_deletion_without_bridge_rows:
  "p_ArchivedOn example_plain = None \<and>
   fst (buildProductDeletionHandler_earlier (example_env no_failure) ''shirt'' unbridged_db)
     = InternalIssue ''archive product in database'' \<and>
   calls_made unbridged_db
       (snd (buildProductDeletionHandler_earlier (example_env no_failure) ''shirt''
               unbridged_db))
     = [(Call_GetProductBySKU ''shirt'', None), (Call_Begin, None),
        (Call_DeleteProductVariantBridgeByProductID 3, Some ErrNoRows), (Call_Rollback, None)] \<and>
   products (committed (snd (buildProductDeletionHandler_earlier (example_env no_failure)
                               ''shirt'' unbridged_db)))
     = [example_plain] \<and>
   fst (buildProductDeletionHandler (example_env no_failure) ''shirt'' unbridged_db)
     = StatusOK (example_plain\<lparr>p_ArchivedOn := Some 1003\<rparr>) \<and>
   calls_made unbridged_db
       (snd (buildProductDeletionHandler (example_env no_failure) ''shirt''
               unbridged_db))
     = [(Call_GetProductBySKU ''shirt'', None), (Call_Begin, None),
        (Call_DeleteProductVariantBridgeByProductID 3, Some ErrNoRows),
        (Call_DeleteProduct 3, None), (Call_Commit, None),
        (Call_GetWebhooksByEventType ''product_archived'', None)] \<and>
   products (committed (snd (buildProductDeletionHandler (example_env no_failure)
                               ''shirt'' unbridged_db)))
     = [example_plain\<lparr>p_ArchivedOn := Some 1003\<rparr>]"
  by code_simp

end
